theory Spec2Isabelle
  imports Complex_Main "HOL-Library.AList"
begin

section \<open>Python values used by the graph engine\<close>

text \<open>
  Exceptions of the source are values.  \<open>KeyError\<close> is raised by a dict lookup or
  \<open>dict.pop\<close> on a missing key, \<open>IndexError\<close> by a list access out of range,
  \<open>ValueError\<close> by a failed \<open>float(...)\<close>, a failed tuple unpacking or an explicit
  \<open>raise ValueError\<close>, \<open>AssertionError\<close> by the \<open>assert\<close> of \<open>IDmap.addID\<close>
  (the specification calls it DuplicateIdError) and \<open>IDNotExistError\<close> by
  \<open>SparseGraph.induced_subgraph\<close> (the specification calls it UnknownIdError).
\<close>

datatype error = KeyError | IndexError | ValueError | AssertionError | IDNotExistError

text \<open>
  A Python \<open>float\<close> is modelled by the real number it denotes: comparison, \<open>max\<close> and
  \<open>min\<close> agree with the reals on all finite floats.  NaN, the infinities and the
  rounding of decimal literals are outside the model.

  The builtins \<open>float(s)\<close> on a string and \<open>str(x)\<close> on a float are parameters of
  the model: \<open>py_float\<close> returns \<open>None\<close> where \<open>float\<close> raises ValueError, and
  \<open>py_repr\<close> is only applied to floats that are not integral.
\<close>

record builtins =
  py_float :: "string \<Rightarrow> real option"
  py_repr :: "real \<Rightarrow> string"

subsection \<open>Strings\<close>

definition is_space :: "char \<Rightarrow> bool" where
  "is_space c = ((of_char c :: nat) \<in> set [9, 10, 11, 12, 13, 28, 29, 30, 31, 32])"

text \<open>\<open>s.strip()\<close>\<close>

definition py_strip :: "string \<Rightarrow> string" where
  "py_strip s = rev (dropWhile is_space (rev (dropWhile is_space s)))"

text \<open>\<open>s.split(sep)\<close> for a separator of one character: always at least one piece.\<close>

fun split_on :: "char \<Rightarrow> string \<Rightarrow> string list" where
  "split_on sep [] = [[]]"
| "split_on sep (c # cs) =
     (if c = sep then [] # split_on sep cs
      else (case split_on sep cs of [] \<Rightarrow> [[c]] | p # ps \<Rightarrow> (c # p) # ps))"

text \<open>
  \<open>for line in f\<close> over a text file with the given content: every line keeps its
  terminating newline, the last line may have none.
\<close>

fun file_lines :: "string \<Rightarrow> string list" where
  "file_lines [] = []"
| "file_lines (c # cs) =
     (if c = CHR 0x0A then [c] # file_lines cs
      else (case file_lines cs of [] \<Rightarrow> [[c]] | l # ls \<Rightarrow> (c # l) # ls))"

text \<open>\<open>str(n)\<close> for a Python \<open>int\<close>.\<close>

definition digit_char :: "nat \<Rightarrow> char" where
  "digit_char n = char_of (48 + n)"

fun str_nat :: "nat \<Rightarrow> string" where
  "str_nat n = (if n < 10 then [digit_char n] else str_nat (n div 10) @ [digit_char (n mod 10)])"

declare str_nat.simps [simp del]

definition str_int :: "int \<Rightarrow> string" where
  "str_int i = (if i < 0 then CHR ''-'' # str_nat (nat (- i)) else str_nat (nat i))"

subsection \<open>A concrete runtime for decimal literals\<close>

text \<open>
  \<open>dec_float\<close> is \<open>float(s)\<close> on plain decimal literals: surrounding whitespace is
  ignored, then an optional sign, digits, and an optional fraction (\<open>1\<close>, \<open>1.\<close>,
  \<open>.5\<close>, \<open>-0.25\<close>).  Every other string is a ValueError here; exponents, underscores
  and the special values of Python's \<open>float\<close> are not covered.  \<open>dec_repr\<close> renders
  a float that is not integral in positional notation with at most 17 fraction digits.
  Both are used only where a concrete input is evaluated.
\<close>

definition is_digit :: "char \<Rightarrow> bool" where
  "is_digit c = (48 \<le> (of_char c :: nat) \<and> (of_char c :: nat) \<le> 57)"

definition digits_val :: "string \<Rightarrow> nat" where
  "digits_val ds = foldl (\<lambda>a c. 10 * a + (of_char c - 48)) 0 ds"

definition dec_float :: "string \<Rightarrow> real option" where
  "dec_float s =
     (let t = py_strip s;
          neg = (t \<noteq> [] \<and> hd t = CHR ''-'');
          u = (if t \<noteq> [] \<and> (hd t = CHR ''-'' \<or> hd t = CHR ''+'') then tl t else t);
          ip = takeWhile is_digit u;
          r = dropWhile is_digit u;
          ok = (r = [] \<or> (hd r = CHR ''.'' \<and> list_all is_digit (tl r)));
          fp = (if r = [] then [] else tl r)
      in if ok \<and> (ip \<noteq> [] \<or> fp \<noteq> [])
         then Some ((if neg then - 1 else 1) *
                    (real (digits_val ip) + real (digits_val fp) / 10 ^ length fp))
         else None)"

fun frac_digits :: "nat \<Rightarrow> real \<Rightarrow> string" where
  "frac_digits 0 x = []"
| "frac_digits (Suc n) x =
     (if x = 0 then []
      else digit_char (nat \<lfloor>x * 10\<rfloor>) # frac_digits n (x * 10 - real_of_int \<lfloor>x * 10\<rfloor>))"

definition dec_repr :: "real \<Rightarrow> string" where
  "dec_repr x =
     (if x < 0 then ''-'' else '''') @ str_nat (nat \<lfloor>\<bar>x\<bar>\<rfloor>) @ ''.'' @
     frac_digits 17 (\<bar>x\<bar> - real_of_int \<lfloor>\<bar>x\<bar>\<rfloor>)"

definition py0 :: builtins where
  "py0 = \<lparr>py_float = dec_float, py_repr = dec_repr\<rparr>"

subsection \<open>Storing a float in an array of dtype float32\<close>








section \<open>IDmap (NLEval/util/IDmap.py)\<close>

text \<open>
  \<open>_data\<close> is a dict from identifier to index and \<open>_lst\<close> the list of identifiers in
  index order.  A dict is an association list in insertion order with distinct keys:
  \<open>d[k]\<close> is \<open>map_of d k\<close>, \<open>d[k] = v\<close> is \<open>AList.update k v d\<close> (an existing key keeps
  its place, a new key goes last), \<open>d.pop(k)\<close> is \<open>AList.delete k d\<close> and \<open>len(d)\<close> is
  \<open>length d\<close>.  Identifiers are strings, as in the signatures of the graph classes.
\<close>

record IDmap =
  data :: "(string \<times> nat) list"
  lst :: "string list"

definition IDmap_init :: IDmap where
  "IDmap_init = \<lparr>data = [], lst = []\<rparr>"

text \<open>\<open>__contains__\<close>\<close>

definition contains :: "IDmap \<Rightarrow> string \<Rightarrow> bool" where
  "contains m key = (map_of (data m) key \<noteq> None)"

text \<open>\<open>__getitem__\<close> with a string key: \<open>self._data[key]\<close>.\<close>

definition getitem :: "IDmap \<Rightarrow> string \<Rightarrow> error + nat" where
  "getitem m key = (case map_of (data m) key of None \<Rightarrow> Inl KeyError | Some i \<Rightarrow> Inr i)"

text \<open>\<open>size\<close>: \<open>len(self._data)\<close>\<close>

definition size_IDmap :: "IDmap \<Rightarrow> nat" where
  "size_IDmap m = length (data m)"

text \<open>\<open>idx2ID\<close>: \<open>self._lst[idx]\<close>\<close>

definition idx2ID :: "IDmap \<Rightarrow> nat \<Rightarrow> error + string" where
  "idx2ID m idx = (if idx < length (lst m) then Inr (lst m ! idx) else Inl IndexError)"

text \<open>
  The first lines of \<open>addID\<close>: \<open>num = float(ID)\<close>, then
  \<open>ID = str(int(num)) if num % 1 == 0 else str(num)\<close>; a ValueError of \<open>float\<close>
  leaves \<open>ID\<close> as it is.
\<close>

definition canon :: "builtins \<Rightarrow> string \<Rightarrow> string" where
  "canon py ID =
     (case py_float py ID of
        None \<Rightarrow> ID
      | Some num \<Rightarrow> if frac num = 0 then str_int \<lfloor>num\<rfloor> else py_repr py num)"

text \<open>
  \<open>addID\<close>.  The result pairs the outcome of the call with the IDmap it leaves behind.
  The outcome is the exception raised or the value returned; the body has no
  \<open>return\<close> statement, so the value returned is Python's \<open>None\<close>, written \<open>None\<close> in
  the type \<open>nat option\<close> of a possible index.
\<close>

definition addID :: "builtins \<Rightarrow> IDmap \<Rightarrow> string \<Rightarrow> (error + nat option) \<times> IDmap" where
  "addID py m ID =
     (let ID' = canon py ID
      in if contains m ID' then (Inl AssertionError, m)
         else (Inr None,
               \<lparr>data = AList.update ID' (size_IDmap m) (data m), lst = lst m @ [ID']\<rparr>))"

text \<open>
  \<open>pop\<close>: \<open>idx = self.data.pop(ID)\<close>, \<open>self.lst.pop(idx)\<close>, then every identifier of
  \<open>self.lst[idx:]\<close> is given its new position.  A procedure returns the exception it
  raised, if any, and the state it leaves behind.
\<close>

definition pop :: "IDmap \<Rightarrow> string \<Rightarrow> error option \<times> IDmap" where
  "pop m ID =
     (case map_of (data m) ID of
        None \<Rightarrow> (Some KeyError, m)
      | Some idx \<Rightarrow>
          let d1 = AList.delete ID (data m)
          in if length (lst m) \<le> idx then (Some IndexError, m\<lparr>data := d1\<rparr>)
             else let l1 = take idx (lst m) @ drop (Suc idx) (lst m);
                      d2 = fold (\<lambda>(i, ID'). AList.update ID' (idx + i))
                                (enumerate 0 (drop idx l1)) d1
                  in (None, \<lparr>data = d2, lst = l1\<rparr>))"

text \<open>
  The invariant of the data model: the dict has distinct keys, it maps exactly the
  identifiers of the list, each to its position, and the list has no duplicates.
\<close>

definition IDmap_inv :: "IDmap \<Rightarrow> bool" where
  "IDmap_inv m =
     (distinct (map fst (data m)) \<and> distinct (lst m) \<and>
      length (data m) = length (lst m) \<and>
      list_all (\<lambda>i. map_of (data m) (lst m ! i) = Some i) [0..<length (lst m)])"


section \<open>SparseGraph (NLEval/graph/sparse.py)\<close>

text \<open>
  The adjacency list \<open>_edge_data\<close> is a list of dicts from neighbour index to weight.
  The module imports its IDmap from \<open>util/idhandler.py\<close> and its base class from
  \<open>graph/base.py\<close>, which are not among the sources: the IDmap above is used, with
  \<open>add_id\<close> for \<open>addID\<close> and \<open>getID\<close> for \<open>idx2ID\<close>; of the base class the model
  keeps the \<open>idmap\<close> attribute, the \<open>size\<close> property (the size of the IDmap, as
  \<open>AdjLst.size\<close> of \<open>NLEval/Graph.py\<close>) and the logger, whose warnings are
  collected in the field \<open>logged\<close>.
\<close>

type_synonym nbrs = "(nat \<times> real) list"
type_synonym EdgeData = "nbrs list"

datatype warning = EdgeOverwrite string string real real

record SparseGraph =
  idmap :: IDmap
  edge_data :: EdgeData
  weighted :: bool
  directed :: bool
  self_loops :: bool
  logged :: "warning list"

text \<open>\<open>__init__\<close>\<close>

definition SparseGraph_init :: "bool \<Rightarrow> bool \<Rightarrow> bool \<Rightarrow> SparseGraph" where
  "SparseGraph_init w d s =
     \<lparr>idmap = IDmap_init, edge_data = [], weighted = w, directed = d, self_loops = s,
      logged = []\<rparr>"

definition size_graph :: "'a SparseGraph_scheme \<Rightarrow> nat" where
  "size_graph g = size_IDmap (idmap g)"

text \<open>\<open>num_edges\<close>: \<open>sum(len(nbrs) for nbrs in self.edge_data)\<close>\<close>

definition num_edges :: "'a SparseGraph_scheme \<Rightarrow> nat" where
  "num_edges g = sum_list (map length (edge_data g))"

text \<open>
  \<open>add_id\<close> with a single identifier.  Every procedure of the graph returns the
  exception it raised, if any, together with the graph it leaves behind, so that the
  state after a failed call is part of the model.
\<close>

definition add_id :: "builtins \<Rightarrow> SparseGraph \<Rightarrow> string \<Rightarrow> error option \<times> SparseGraph" where
  "add_id py g node_id =
     (case addID py (idmap g) node_id of
        (Inl e, m) \<Rightarrow> (Some e, g\<lparr>idmap := m\<rparr>)
      | (Inr r, m) \<Rightarrow> (None, g\<lparr>idmap := m, edge_data := edge_data g @ [[]]\<rparr>))"

text \<open>
  \<open>_default_add_id\<close>.  The call \<open>self.add_id\<close> is resolved in the class of the
  object, so the method to call is an argument.
\<close>

definition priv_default_add_id ::
  "('g \<Rightarrow> string \<Rightarrow> error option \<times> 'g) \<Rightarrow> ('g \<Rightarrow> IDmap) \<Rightarrow> 'g \<Rightarrow> string \<Rightarrow> error option \<times> 'g" where
  "priv_default_add_id self_add_id self_idmap g node_id =
     (if \<not> contains (self_idmap g) node_id then self_add_id g node_id else (None, g))"

text \<open>
  \<open>_add_edge\<close> updates the adjacency list passed in \<open>edge_data\<close>; the result is the
  exception raised, the adjacency list after the call and the warnings logged.
\<close>

definition reduce_weight :: "string option \<Rightarrow> real \<Rightarrow> real \<Rightarrow> real" where
  "reduce_weight reduction old_weight weight =
     (if old_weight \<noteq> weight then
        (if reduction = None then weight
         else if reduction = Some ''max'' then max old_weight weight
         else if reduction = Some ''min'' then min old_weight weight
         else weight)
      else weight)"

definition priv_add_edge ::
  "'a SparseGraph_scheme \<Rightarrow> string \<Rightarrow> string \<Rightarrow> real \<Rightarrow> string option \<Rightarrow> EdgeData \<Rightarrow>
   error option \<times> EdgeData \<times> warning list" where
  "priv_add_edge g node_id1 node_id2 weight reduction ed =
     (case getitem (idmap g) node_id1 of
        Inl e \<Rightarrow> (Some e, ed, [])
      | Inr node_idx1 \<Rightarrow>
     (case getitem (idmap g) node_id2 of
        Inl e \<Rightarrow> (Some e, ed, [])
      | Inr node_idx2 \<Rightarrow>
          if \<not> self_loops g \<and> node_idx1 = node_idx2 then (None, ed, [])
          else if length ed \<le> node_idx1 then (Some IndexError, ed, [])
          else
            let old = map_of (ed ! node_idx1) node_idx2;
                w = (case old of None \<Rightarrow> weight
                     | Some old_weight \<Rightarrow> reduce_weight reduction old_weight weight);
                msgs = (case old of None \<Rightarrow> []
                        | Some old_weight \<Rightarrow>
                            if old_weight \<noteq> weight \<and> reduction = None
                            then [EdgeOverwrite node_id1 node_id2 old_weight weight] else []);
                ed1 = ed[node_idx1 := AList.update node_idx2 w (ed ! node_idx1)]
            in if directed g then (None, ed1, msgs)
               else if length ed1 \<le> node_idx2 then (Some IndexError, ed1, msgs)
               else (None, ed1[node_idx2 := AList.update node_idx1 w (ed1 ! node_idx2)], msgs)))"

text \<open>
  The body of \<open>SparseGraph.add_edge\<close>, for an object whose \<open>add_id\<close> method is
  \<open>self_add_id\<close>.
\<close>

definition SparseGraph_add_edge ::
  "('a SparseGraph_scheme \<Rightarrow> string \<Rightarrow> error option \<times> 'a SparseGraph_scheme) \<Rightarrow>
   'a SparseGraph_scheme \<Rightarrow> string \<Rightarrow> string \<Rightarrow> real \<Rightarrow> string option \<Rightarrow>
   error option \<times> 'a SparseGraph_scheme" where
  "SparseGraph_add_edge self_add_id g node_id1 node_id2 weight reduction =
     (if reduction \<notin> set [None, Some ''max'', Some ''min''] then (Some ValueError, g)
      else case priv_default_add_id self_add_id idmap g node_id1 of
             (Some e, g1) \<Rightarrow> (Some e, g1)
           | (None, g1) \<Rightarrow>
          (case priv_default_add_id self_add_id idmap g1 node_id2 of
             (Some e, g2) \<Rightarrow> (Some e, g2)
           | (None, g2) \<Rightarrow>
          (case priv_add_edge g2 node_id1 node_id2 weight reduction (edge_data g2) of
             (err, ed, msgs) \<Rightarrow> (err, g2\<lparr>edge_data := ed, logged := logged g2 @ msgs\<rparr>))))"

text \<open>\<open>add_edge\<close> on a \<open>SparseGraph\<close>\<close>

definition add_edge ::
  "builtins \<Rightarrow> SparseGraph \<Rightarrow> string \<Rightarrow> string \<Rightarrow> real \<Rightarrow> string option \<Rightarrow>
   error option \<times> SparseGraph" where
  "add_edge py g node_id1 node_id2 weight reduction =
     SparseGraph_add_edge (add_id py) g node_id1 node_id2 weight reduction"

text \<open>
  \<open>get_edge\<close>: the expression \<open>self.edge_data[self.idmap[node_id1]][self.idmap[node_id2]]\<close>
  is evaluated from left to right inside \<open>try\<close>, and \<open>except KeyError\<close> turns a
  KeyError of any of its lookups into the result 0.
\<close>

definition get_edge_lookup :: "'a SparseGraph_scheme \<Rightarrow> string \<Rightarrow> string \<Rightarrow> error + real" where
  "get_edge_lookup g node_id1 node_id2 =
     (case getitem (idmap g) node_id1 of
        Inl e \<Rightarrow> Inl e
      | Inr i \<Rightarrow>
          if length (edge_data g) \<le> i then Inl IndexError
          else (case getitem (idmap g) node_id2 of
                  Inl e \<Rightarrow> Inl e
                | Inr j \<Rightarrow> (case map_of (edge_data g ! i) j of
                              None \<Rightarrow> Inl KeyError
                            | Some w \<Rightarrow> Inr w)))"

definition get_edge :: "'a SparseGraph_scheme \<Rightarrow> string \<Rightarrow> string \<Rightarrow> error + real" where
  "get_edge g node_id1 node_id2 =
     (case get_edge_lookup g node_id1 node_id2 of
        Inl e \<Rightarrow> if e = KeyError then Inr 0 else Inl e
      | Inr w \<Rightarrow> Inr w)"

subsection \<open>Reading an edge list\<close>

text \<open>
  One round of the loop of \<open>edglst_reader\<close>: the result \<open>Inr None\<close> is the
  \<open>continue\<close> of a weight at or below the threshold, \<open>Inr (Some t)\<close> the triple
  yielded, \<open>Inl ValueError\<close> the ValueError of the second unpacking, which nothing
  catches.
\<close>

definition edglst_line ::
  "builtins \<Rightarrow> string \<Rightarrow> bool \<Rightarrow> real \<Rightarrow> error + (string \<times> string \<times> real) option" where
  "edglst_line py line is_weighted cut_threshold =
     (let tried =
            (case split_on CHR 0x09 line of
               [node_id1, node_id2, weight] \<Rightarrow>
                 (case py_float py weight of
                    None \<Rightarrow> Inl ValueError
                  | Some w \<Rightarrow> Inr (node_id1, node_id2, w))
             | _ \<Rightarrow> Inl ValueError)
      in case tried of
           Inr (node_id1, node_id2, w) \<Rightarrow>
             if w \<le> cut_threshold then Inr None
             else Inr (Some (py_strip node_id1, py_strip node_id2, if \<not> is_weighted then 1 else w))
         | Inl e \<Rightarrow>
             (case split_on CHR 0x09 line of
                [node_id1, node_id2] \<Rightarrow> Inr (Some (py_strip node_id1, py_strip node_id2, 1))
              | _ \<Rightarrow> Inl ValueError))"

text \<open>\<open>read\<close> with the edge-list reader, over the lines of the file.\<close>

fun read_lines ::
  "builtins \<Rightarrow> SparseGraph \<Rightarrow> string list \<Rightarrow> real \<Rightarrow> error option \<times> SparseGraph" where
  "read_lines py g [] cut_threshold = (None, g)"
| "read_lines py g (line # ls) cut_threshold =
     (case edglst_line py line (weighted g) cut_threshold of
        Inl e \<Rightarrow> (Some e, g)
      | Inr None \<Rightarrow> read_lines py g ls cut_threshold
      | Inr (Some (node_id1, node_id2, weight)) \<Rightarrow>
          (case add_edge py g node_id1 node_id2 weight None of
             (Some e, g1) \<Rightarrow> (Some e, g1)
           | (None, g1) \<Rightarrow> read_lines py g1 ls cut_threshold))"

text \<open>\<open>from_edglst\<close>, given the content of the file: the new graph, or the exception.\<close>

definition from_edglst :: "builtins \<Rightarrow> string \<Rightarrow> bool \<Rightarrow> bool \<Rightarrow> real \<Rightarrow> error + SparseGraph" where
  "from_edglst py content is_weighted is_directed cut_threshold =
     (case read_lines py (SparseGraph_init is_weighted is_directed False)
             (file_lines content) cut_threshold of
        (Some e, g) \<Rightarrow> Inl e
      | (None, g) \<Rightarrow> Inr g)"

subsection \<open>Induced subgraph\<close>

text \<open>The first loop of \<open>induced_subgraph\<close>: the nodes are checked and added in order.\<close>

fun add_nodes ::
  "builtins \<Rightarrow> 'a SparseGraph_scheme \<Rightarrow> SparseGraph \<Rightarrow> string list \<Rightarrow> error option \<times> SparseGraph" where
  "add_nodes py self graph [] = (None, graph)"
| "add_nodes py self graph (node # rest) =
     (if \<not> contains (idmap self) node then (Some IDNotExistError, graph)
      else case add_id py graph node of
             (Some e, g1) \<Rightarrow> (Some e, g1)
           | (None, g1) \<Rightarrow> add_nodes py self g1 rest)"

text \<open>The inner loop, over the items of \<open>self.edge_data[node1_idx]\<close>.\<close>

fun copy_row ::
  "builtins \<Rightarrow> 'a SparseGraph_scheme \<Rightarrow> string list \<Rightarrow> string \<Rightarrow> nbrs \<Rightarrow> SparseGraph \<Rightarrow>
   error option \<times> SparseGraph" where
  "copy_row py self node_ids node1 [] graph = (None, graph)"
| "copy_row py self node_ids node1 ((node2_idx, weight) # rest) graph =
     (case idx2ID (idmap self) node2_idx of
        Inl e \<Rightarrow> (Some e, graph)
      | Inr node2 \<Rightarrow>
          if node2 \<in> set node_ids then
            (case add_edge py graph node1 node2 weight None of
               (Some e, g1) \<Rightarrow> (Some e, g1)
             | (None, g1) \<Rightarrow> copy_row py self node_ids node1 rest g1)
          else copy_row py self node_ids node1 rest graph)"

text \<open>The outer loop, over the nodes still to visit.\<close>

fun copy_edges ::
  "builtins \<Rightarrow> 'a SparseGraph_scheme \<Rightarrow> string list \<Rightarrow> string list \<Rightarrow> SparseGraph \<Rightarrow>
   error option \<times> SparseGraph" where
  "copy_edges py self node_ids [] graph = (None, graph)"
| "copy_edges py self node_ids (node1 # rest) graph =
     (case getitem (idmap self) node1 of
        Inl e \<Rightarrow> (Some e, graph)
      | Inr node1_idx \<Rightarrow>
          if length (edge_data self) \<le> node1_idx then (Some IndexError, graph)
          else (case copy_row py self node_ids node1 (edge_data self ! node1_idx) graph of
                  (Some e, g1) \<Rightarrow> (Some e, g1)
                | (None, g1) \<Rightarrow> copy_edges py self node_ids rest g1))"

definition induced_subgraph ::
  "builtins \<Rightarrow> 'a SparseGraph_scheme \<Rightarrow> string list \<Rightarrow> error + SparseGraph" where
  "induced_subgraph py self node_ids =
     (case add_nodes py self
             (SparseGraph_init (weighted self) (directed self) (self_loops self)) node_ids of
        (Some e, g) \<Rightarrow> Inl e
      | (None, g) \<Rightarrow>
          (case copy_edges py self node_ids node_ids g of
             (Some e, g1) \<Rightarrow> Inl e
           | (None, g1) \<Rightarrow> Inr g1))"

subsection \<open>The npz archive\<close>

text \<open>
  The archive holds the arrays \<open>node_ids\<close>, \<open>edge_index\<close> (one pair of source and
  destination per edge, of dtype \<open>uint32\<close>) and, if saved, \<open>edge_weight\<close> (of dtype
  \<open>float32\<close>).
\<close>

record npz =
  node_ids :: "string list"
  edge_index :: "(nat \<times> nat) list"
  edge_weight :: "real list option"








subsection \<open>The edge generator\<close>

text \<open>
  \<open>edge_gen\<close> starts with \<open>edge_data_copy = self._edge_data[:]\<close>, a new list of the
  same dict objects.  To keep that sharing, the dicts live in a store (a list indexed
  by address) and an adjacency list is a list of addresses: the graph's own list and
  its copy hold the same addresses, and \<open>edge_data_copy[dst_idx].pop(src_idx)\<close> changes
  the dict at the address \<open>edge_data_copy[dst_idx]\<close> in the store.

  The inner loop runs over the keys of \<open>src_nbrs\<close> as they are when it starts: the dict
  being iterated is changed only when \<open>dst_idx = src_idx\<close>, and then the lookup that
  follows raises KeyError at once.  The result is the exception raised, the triples
  yielded and the store at the end.
\<close>

fun edge_gen_row ::
  "'a SparseGraph_scheme \<Rightarrow> nat list \<Rightarrow> nat \<Rightarrow> string \<Rightarrow> nat list \<Rightarrow> nbrs list \<Rightarrow>
   error option \<times> (string \<times> string \<times> real) list \<times> nbrs list" where
  "edge_gen_row g edge_data_copy src_idx src_node_id [] store = (None, [], store)"
| "edge_gen_row g edge_data_copy src_idx src_node_id (dst_idx # ks) store =
     (case idx2ID (idmap g) dst_idx of
        Inl e \<Rightarrow> (Some e, [], store)
      | Inr dst_node_id \<Rightarrow>
          let popped =
                (if directed g then Inr store
                 else if length edge_data_copy \<le> dst_idx then Inl IndexError
                 else if map_of (store ! (edge_data_copy ! dst_idx)) src_idx = None then Inl KeyError
                 else Inr (store[edge_data_copy ! dst_idx :=
                             AList.delete src_idx (store ! (edge_data_copy ! dst_idx))]))
          in case popped of
               Inl e \<Rightarrow> (Some e, [], store)
             | Inr store1 \<Rightarrow>
                 (case map_of (store1 ! (edge_data_copy ! src_idx)) dst_idx of
                    None \<Rightarrow> (Some KeyError, [], store1)
                  | Some weight \<Rightarrow>
                      (case edge_gen_row g edge_data_copy src_idx src_node_id ks store1 of
                         (err, ys, store2) \<Rightarrow>
                           (err, (src_node_id, dst_node_id, weight) # ys, store2))))"

fun edge_gen_rows ::
  "'a SparseGraph_scheme \<Rightarrow> nat list \<Rightarrow> nat list \<Rightarrow> nbrs list \<Rightarrow>
   error option \<times> (string \<times> string \<times> real) list \<times> nbrs list" where
  "edge_gen_rows g edge_data_copy [] store = (None, [], store)"
| "edge_gen_rows g edge_data_copy (src_idx # rest) store =
     (case idx2ID (idmap g) src_idx of
        Inl e \<Rightarrow> (Some e, [], store)
      | Inr src_node_id \<Rightarrow>
          (case edge_gen_row g edge_data_copy src_idx src_node_id
                  (map fst (store ! (edge_data_copy ! src_idx))) store of
             (Some e, ys, store1) \<Rightarrow> (Some e, ys, store1)
           | (None, ys, store1) \<Rightarrow>
               (case edge_gen_rows g edge_data_copy rest store1 of
                  (err, zs, store2) \<Rightarrow> (err, ys @ zs, store2))))"

text \<open>
  Running the generator to its end on a graph: the dict of row \<open>i\<close> is put at address
  \<open>i\<close>.  The result is the exception raised, the triples yielded, and the graph as it
  is afterwards, its adjacency list read back from the store.
\<close>

definition edge_gen ::
  "SparseGraph \<Rightarrow> error option \<times> (string \<times> string \<times> real) list \<times> SparseGraph" where
  "edge_gen g =
     (let store = edge_data g;
          self_edge_data = [0..<length store];
          edge_data_copy = self_edge_data
      in case edge_gen_rows g edge_data_copy [0..<length edge_data_copy] store of
           (err, ys, store1) \<Rightarrow> (err, ys, g\<lparr>edge_data := map (\<lambda>a. store1 ! a) self_edge_data\<rparr>))"

section \<open>DirectedSparseGraph\<close>

record DirectedSparseGraph = SparseGraph +
  rev_edge_data :: EdgeData

definition DirectedSparseGraph_init :: "bool \<Rightarrow> DirectedSparseGraph" where
  "DirectedSparseGraph_init w =
     \<lparr>idmap = IDmap_init, edge_data = [], weighted = w, directed = True, self_loops = False,
      logged = [], rev_edge_data = []\<rparr>"

definition Directed_add_id ::
  "builtins \<Rightarrow> DirectedSparseGraph \<Rightarrow> string \<Rightarrow> error option \<times> DirectedSparseGraph" where
  "Directed_add_id py g node_id =
     (case addID py (idmap g) node_id of
        (Inl e, m) \<Rightarrow> (Some e, g\<lparr>idmap := m\<rparr>)
      | (Inr r, m) \<Rightarrow>
          (None, g\<lparr>idmap := m, edge_data := edge_data g @ [[]],
                   rev_edge_data := rev_edge_data g @ [[]]\<rparr>))"

text \<open>\<open>add_id\<close> with a list: the elements are added in order until one fails.\<close>

fun add_id_list :: "('g \<Rightarrow> string \<Rightarrow> error option \<times> 'g) \<Rightarrow> 'g \<Rightarrow> string list \<Rightarrow> error option \<times> 'g" where
  "add_id_list self_add_id g [] = (None, g)"
| "add_id_list self_add_id g (x # xs) =
     (case self_add_id g x of
        (Some e, g1) \<Rightarrow> (Some e, g1)
      | (None, g1) \<Rightarrow> add_id_list self_add_id g1 xs)"

definition Directed_add_edge ::
  "builtins \<Rightarrow> DirectedSparseGraph \<Rightarrow> string \<Rightarrow> string \<Rightarrow> real \<Rightarrow> string option \<Rightarrow>
   error option \<times> DirectedSparseGraph" where
  "Directed_add_edge py g node_id1 node_id2 weight reduction =
     (case SparseGraph_add_edge (Directed_add_id py) g node_id1 node_id2 weight reduction of
        (Some e, g1) \<Rightarrow> (Some e, g1)
      | (None, g1) \<Rightarrow>
          (case priv_add_edge g1 node_id2 node_id1 weight reduction (rev_edge_data g1) of
             (err, ed, msgs) \<Rightarrow> (err, g1\<lparr>rev_edge_data := ed, logged := logged g1 @ msgs\<rparr>)))"

text \<open>
  A sequence of calls on one object.  A caller may catch the exception of a call and go
  on, so the next call starts from the state that the failed call left behind.
\<close>

datatype op = AddId string | AddIdList "string list" | AddEdge string string real "string option"

fun Directed_call ::
  "builtins \<Rightarrow> DirectedSparseGraph \<Rightarrow> op \<Rightarrow> error option \<times> DirectedSparseGraph" where
  "Directed_call py g (AddId x) = Directed_add_id py g x"
| "Directed_call py g (AddIdList xs) = add_id_list (Directed_add_id py) g xs"
| "Directed_call py g (AddEdge a b w r) = Directed_add_edge py g a b w r"

definition Directed_calls :: "builtins \<Rightarrow> DirectedSparseGraph \<Rightarrow> op list \<Rightarrow> DirectedSparseGraph" where
  "Directed_calls py g ops = foldl (\<lambda>g c. snd (Directed_call py g c)) g ops"

fun SparseGraph_call :: "builtins \<Rightarrow> SparseGraph \<Rightarrow> op \<Rightarrow> error option \<times> SparseGraph" where
  "SparseGraph_call py g (AddId x) = add_id py g x"
| "SparseGraph_call py g (AddIdList xs) = add_id_list (add_id py) g xs"
| "SparseGraph_call py g (AddEdge a b w r) = add_edge py g a b w r"

definition SparseGraph_calls :: "builtins \<Rightarrow> SparseGraph \<Rightarrow> op list \<Rightarrow> SparseGraph" where
  "SparseGraph_calls py g ops = foldl (\<lambda>g c. snd (SparseGraph_call py g c)) g ops"

section \<open>Invariants of the data model\<close>

text \<open>
  \<open>rows_inv\<close>: the IDmap is consistent, there is one row per node, the keys of a row
  are distinct and are indices of nodes.  \<open>mirror_inv\<close>: in an undirected graph every
  entry has its mirrored entry with the same weight.  \<open>loop_inv\<close>: a graph that does
  not allow self-loops stores none.  \<open>canonical_ids\<close>: every stored identifier is
  what \<open>addID\<close> makes of it.
\<close>

definition rows_ok :: "nat \<Rightarrow> EdgeData \<Rightarrow> bool" where
  "rows_ok n ed =
     (length ed = n \<and>
      list_all (\<lambda>row. distinct (map fst row) \<and> list_all (\<lambda>(j, w). j < n) row) ed)"

definition rows_inv :: "'a SparseGraph_scheme \<Rightarrow> bool" where
  "rows_inv g = (IDmap_inv (idmap g) \<and> rows_ok (length (lst (idmap g))) (edge_data g))"

definition mirror_inv :: "'a SparseGraph_scheme \<Rightarrow> bool" where
  "mirror_inv g =
     (directed g \<or>
      list_all (\<lambda>i. list_all (\<lambda>(j, w). map_of (edge_data g ! j) i = Some w) (edge_data g ! i))
        [0..<length (edge_data g)])"

definition loop_inv :: "'a SparseGraph_scheme \<Rightarrow> bool" where
  "loop_inv g =
     (self_loops g \<or>
      list_all (\<lambda>i. map_of (edge_data g ! i) i = None) [0..<length (edge_data g)])"

definition graph_inv :: "'a SparseGraph_scheme \<Rightarrow> bool" where
  "graph_inv g = (rows_inv g \<and> mirror_inv g \<and> loop_inv g)"



text \<open>
  The reverse store mirrors the forward store: every entry \<open>fwd[i][j] = w\<close> has the
  entry \<open>rv[j][i] = w\<close>, and every entry of the reverse store comes from one of the
  forward store.
\<close>

definition mirrored :: "EdgeData \<Rightarrow> EdgeData \<Rightarrow> bool" where
  "mirrored fwd rv =
     (length fwd = length rv \<and>
      list_all (\<lambda>i. list_all (\<lambda>(j, w). j < length rv \<and> map_of (rv ! j) i = Some w) (fwd ! i))
        [0..<length fwd] \<and>
      list_all (\<lambda>j. list_all (\<lambda>(i, w). i < length fwd \<and> map_of (fwd ! i) j = Some w) (rv ! j))
        [0..<length rv])"

text \<open>
  The invariant of a \<open>DirectedSparseGraph\<close>: the IDmap is consistent, both stores have
  one well-formed row per node, the reverse store mirrors the forward store, and the
  graph is marked as directed.
\<close>

definition Directed_inv :: "DirectedSparseGraph \<Rightarrow> bool" where
  "Directed_inv g =
     (IDmap_inv (idmap g) \<and>
      rows_ok (length (lst (idmap g))) (edge_data g) \<and>
      rows_ok (length (lst (idmap g))) (rev_edge_data g) \<and>
      mirrored (edge_data g) (rev_edge_data g) \<and> directed g)"

text \<open>The weight stored for the edge from \<open>a\<close> to \<open>b\<close>, if there is one.\<close>

definition edge_weight_of :: "'a SparseGraph_scheme \<Rightarrow> string \<Rightarrow> string \<Rightarrow> real option" where
  "edge_weight_of g a b =
     (case map_of (data (idmap g)) a of
        None \<Rightarrow> None
      | Some i \<Rightarrow>
          (case map_of (data (idmap g)) b of
             None \<Rightarrow> None
           | Some j \<Rightarrow> if i < length (edge_data g) then map_of (edge_data g ! i) j else None))"

text \<open>
  The invariant of the copying loops of \<open>induced_subgraph\<close>: the new graph has the
  requested identifiers in order, one well-formed row for each, the flags of the
  source, and every entry it stores is an entry of the source between the same two
  identifiers.
\<close>

definition copy_state :: "'a SparseGraph_scheme \<Rightarrow> string list \<Rightarrow> SparseGraph \<Rightarrow> bool" where
  "copy_state self ids G =
     (IDmap_inv (idmap G) \<and> lst (idmap G) = ids \<and>
      rows_ok (length ids) (edge_data G) \<and>
      directed G = directed self \<and> self_loops G = self_loops self \<and>
      weighted G = weighted self \<and>
      (\<forall>p<length ids. \<forall>q<length ids. \<forall>w.
         map_of (edge_data G ! p) q = Some w \<longrightarrow>
         edge_weight_of self (ids ! p) (ids ! q) = Some w))"

subsection \<open>Concrete inputs\<close>

text \<open>The edge list of the example: three lines, the fields separated by tabs.\<close>

definition edglst_example :: string where
  "edglst_example =
     ''1'' @ [CHR 0x09] @ ''3'' @ [CHR 0x09] @ ''0.4'' @ [CHR 0x0A] @
     ''1'' @ [CHR 0x09] @ ''2'' @ [CHR 0x09] @ ''1'' @ [CHR 0x0A] @
     ''3'' @ [CHR 0x09] @ ''4'' @ [CHR 0x09] @ ''0.1'' @ [CHR 0x0A]"

text \<open>The graph that the example builds.\<close>

definition graph_example :: SparseGraph where
  "graph_example =
     \<lparr>idmap = \<lparr>data = [(''1'', 0), (''3'', 1), (''2'', 2), (''4'', 3)],
               lst = [''1'', ''3'', ''2'', ''4'']\<rparr>,
      edge_data = [[(1, 4 / 10), (2, 1)], [(0, 4 / 10), (3, 1 / 10)], [(0, 1)], [(1, 1 / 10)]],
      weighted = True, directed = False, self_loops = False, logged = []\<rparr>"

text \<open>An IDmap with three identifiers.\<close>

definition idmap_abc :: IDmap where
  "idmap_abc = \<lparr>data = [(''a'', 0), (''b'', 1), (''c'', 2)], lst = [''a'', ''b'', ''c'']\<rparr>"

section \<open>Properties of the IDmap\<close>

lemma IDmap_inv_iff:
  "IDmap_inv m \<longleftrightarrow>
     distinct (map fst (data m)) \<and> distinct (lst m) \<and> length (data m) = length (lst m) \<and>
     (\<forall>i<length (lst m). map_of (data m) (lst m ! i) = Some i)"
  by (auto simp: IDmap_inv_def list_all_iff)

lemma IDmap_inv_keys:
  assumes "IDmap_inv m"
  shows "fst ` set (data m) = set (lst m)"
proof -
  from assms have d: "distinct (map fst (data m))" and l: "distinct (lst m)"
    and len: "length (data m) = length (lst m)"
    and at: "\<forall>i<length (lst m). map_of (data m) (lst m ! i) = Some i"
    by (simp_all add: IDmap_inv_iff)
  have sub: "set (lst m) \<subseteq> fst ` set (data m)"
  proof
    fix x assume "x \<in> set (lst m)"
    then obtain i where "i < length (lst m)" "lst m ! i = x" by (auto simp: in_set_conv_nth)
    with at have "map_of (data m) x = Some i" by auto
    then show "x \<in> fst ` set (data m)" by (metis map_of_eq_None_iff option.distinct(1))
  qed
  have "card (fst ` set (data m)) = length (data m)"
    using d by (metis distinct_card length_map set_map)
  moreover have "card (set (lst m)) = length (lst m)" using l by (simp add: distinct_card)
  ultimately have "card (fst ` set (data m)) = card (set (lst m))" using len by simp
  with sub show ?thesis by (metis card_subset_eq List.finite_set finite_imageI)
qed

lemma IDmap_inv_lookup:
  assumes "IDmap_inv m" "map_of (data m) ID = Some idx"
  shows "idx < length (lst m) \<and> lst m ! idx = ID"
proof -
  from assms(2) have "ID \<in> fst ` set (data m)" by (metis map_of_eq_None_iff option.distinct(1))
  then have "ID \<in> set (lst m)" using IDmap_inv_keys[OF assms(1)] by simp
  then obtain i where i: "i < length (lst m)" "lst m ! i = ID" by (auto simp: in_set_conv_nth)
  with assms(1) have "map_of (data m) ID = Some i" by (auto simp: IDmap_inv_iff)
  with assms(2) i show ?thesis by simp
qed

lemma length_update_new:
  "map_of al k = None \<Longrightarrow> length (AList.update k v al) = Suc (length al)"
  by (induction al) (auto split: if_splits)

lemma IDmap_inv_init: "IDmap_inv IDmap_init"
  by (simp add: IDmap_inv_def IDmap_init_def)

lemma addID_dup:
  "contains m (canon py ID) \<Longrightarrow> addID py m ID = (Inl AssertionError, m)"
  by (simp add: addID_def)

lemma addID_new:
  "\<not> contains m (canon py ID) \<Longrightarrow>
   addID py m ID = (Inr None, \<lparr>data = AList.update (canon py ID) (length (data m)) (data m),
                                lst = lst m @ [canon py ID]\<rparr>)"
  by (simp add: addID_def size_IDmap_def Let_def)

lemma addID_inv:
  assumes "IDmap_inv m"
  shows "IDmap_inv (snd (addID py m ID))"
proof (cases "contains m (canon py ID)")
  case True
  then show ?thesis using assms by (simp add: addID_dup)
next
  case False
  let ?c = "canon py ID"
  from False have none: "map_of (data m) ?c = None" by (simp add: contains_def)
  then have notin: "?c \<notin> set (lst m)"
    using IDmap_inv_keys[OF assms] by (metis map_of_eq_None_iff)
  from assms have d: "distinct (map fst (data m))" and l: "distinct (lst m)"
    and len: "length (data m) = length (lst m)"
    and at: "\<forall>i<length (lst m). map_of (data m) (lst m ! i) = Some i"
    by (simp_all add: IDmap_inv_iff)
  have "\<forall>i<Suc (length (lst m)).
          map_of (AList.update ?c (length (data m)) (data m)) ((lst m @ [?c]) ! i) = Some i"
  proof (intro allI impI)
    fix i assume "i < Suc (length (lst m))"
    then consider "i < length (lst m)" | "i = length (lst m)" by linarith
    then show "map_of (AList.update ?c (length (data m)) (data m)) ((lst m @ [?c]) ! i) = Some i"
    proof cases
      case 1
      then have "lst m ! i \<noteq> ?c" using notin by (metis nth_mem)
      with 1 at show ?thesis by (simp add: update_conv' nth_append)
    next
      case 2
      then show ?thesis using len by (simp add: update_conv' nth_append)
    qed
  qed
  then show ?thesis
    using False d l len notin none
    by (simp add: addID_new IDmap_inv_iff distinct_update length_update_new)
qed


lemma fold_update_notin:
  "k \<notin> set xs \<Longrightarrow>
   map_of (fold (\<lambda>(i, x). AList.update x (f i)) (enumerate n xs) d) k = map_of d k"
  by (induction xs arbitrary: n d) (auto simp: update_conv')

lemma fold_update_nth:
  "distinct xs \<Longrightarrow> j < length xs \<Longrightarrow>
   map_of (fold (\<lambda>(i, x). AList.update x (f i)) (enumerate n xs) d) (xs ! j) = Some (f (n + j))"
proof (induction xs arbitrary: n d j)
  case Nil
  then show ?case by simp
next
  case (Cons x xs)
  show ?case
  proof (cases j)
    case 0
    then show ?thesis using Cons.prems by (simp add: fold_update_notin update_conv')
  next
    case (Suc j')
    then show ?thesis using Cons.prems Cons.IH[of j' "Suc n"] by simp
  qed
qed

lemma fold_update_keys:
  "set xs \<subseteq> fst ` set d \<Longrightarrow>
   map fst (fold (\<lambda>(i, x). AList.update x (f i)) (enumerate n xs) d) = map fst d"
proof (induction xs arbitrary: n d)
  case Nil
  then show ?case by simp
next
  case (Cons x xs)
  have k: "map fst (AList.update x (f n) d) = map fst d"
    using Cons.prems by (simp add: update_keys)
  then have "set xs \<subseteq> fst ` set (AList.update x (f n) d)"
    using Cons.prems by (metis (no_types, lifting) list.set_map set_subset_Cons subset_trans)
  from Cons.IH[OF this] k show ?case by simp
qed

lemma pop_absent: "\<not> contains m ID \<Longrightarrow> pop m ID = (Some KeyError, m)"
  by (simp add: pop_def contains_def)

lemma pop_present:
  assumes inv: "IDmap_inv m" and look: "map_of (data m) ID = Some idx"
  defines "l1 \<equiv> take idx (lst m) @ drop (Suc idx) (lst m)"
  defines "d2 \<equiv> fold (\<lambda>(i, ID'). AList.update ID' (idx + i)) (enumerate 0 (drop (Suc idx) (lst m)))
                     (AList.delete ID (data m))"
  shows "pop m ID = (None, \<lparr>data = d2, lst = l1\<rparr>)"
    and "IDmap_inv \<lparr>data = d2, lst = l1\<rparr>"
    and "\<forall>i<length l1. map_of d2 (l1 ! i) = Some i"
    and "map_of d2 ID = None"
proof -
  from inv have d: "distinct (map fst (data m))" and l: "distinct (lst m)"
    and len: "length (data m) = length (lst m)"
    and at: "\<forall>i<length (lst m). map_of (data m) (lst m ! i) = Some i"
    by (simp_all add: IDmap_inv_iff)
  from IDmap_inv_lookup[OF inv look] have idx: "idx < length (lst m)" and atidx: "lst m ! idx = ID"
    by simp_all
  let ?tail = "drop (Suc idx) (lst m)"
  let ?d1 = "AList.delete ID (data m)"
  have drop_l1: "drop idx l1 = ?tail"
    using idx by (simp add: l1_def)
  show "pop m ID = (None, \<lparr>data = d2, lst = l1\<rparr>)"
    using look idx drop_l1 by (simp add: pop_def Let_def l1_def[symmetric] d2_def)
  have split: "lst m = take idx (lst m) @ ID # ?tail"
    using idx atidx by (metis id_take_nth_drop)
  have dl1: "distinct l1" and ID_notin: "ID \<notin> set l1" and set_l1: "set l1 = set (lst m) - {ID}"
  proof -
    have "distinct (take idx (lst m) @ ID # ?tail)" using l split by simp
    then show "distinct l1" "ID \<notin> set l1" by (auto simp: l1_def)
    have "set (lst m) = set (take idx (lst m) @ ID # ?tail)" using split by simp
    with \<open>ID \<notin> set l1\<close> show "set l1 = set (lst m) - {ID}" by (auto simp: l1_def)
  qed
  have len_l1: "length l1 = length (lst m) - 1"
    using idx by (simp add: l1_def)
  have keys_d1: "map fst ?d1 = removeAll ID (map fst (data m))" by (simp add: delete_keys)
  have dist_d1: "distinct (map fst ?d1)" using d by (simp add: distinct_delete)
  have ID_key: "ID \<in> set (map fst (data m))"
    using look by (metis map_of_eq_None_iff option.distinct(1) set_map)
  have len_d1: "length ?d1 = length (data m) - 1"
  proof -
    have "length (map fst ?d1) = length (remove1 ID (map fst (data m)))"
      using d by (simp add: keys_d1 distinct_remove1_removeAll)
    then show ?thesis using ID_key by (simp add: length_remove1)
  qed
  have tail_sub: "set ?tail \<subseteq> fst ` set ?d1"
  proof
    fix x assume x: "x \<in> set ?tail"
    then have "x \<in> set l1" by (simp add: l1_def)
    then have "x \<in> set (lst m)" "x \<noteq> ID" using set_l1 by auto
    then have "x \<in> set (map fst (data m))" using IDmap_inv_keys[OF inv] by simp
    with \<open>x \<noteq> ID\<close> have "x \<in> set (map fst ?d1)" by (simp add: keys_d1)
    then show "x \<in> fst ` set ?d1" by simp
  qed
  have keys_d2: "map fst d2 = map fst ?d1"
    unfolding d2_def by (rule fold_update_keys[OF tail_sub])
  have dist_tail: "distinct ?tail" using l by simp
  show at2: "\<forall>i<length l1. map_of d2 (l1 ! i) = Some i"
  proof (intro allI impI)
    fix i assume i: "i < length l1"
    show "map_of d2 (l1 ! i) = Some i"
    proof (cases "i < idx")
      case True
      then have e: "l1 ! i = lst m ! i" using idx by (simp add: l1_def nth_append)
      have "take idx (lst m) ! i \<in> set (take idx (lst m))"
        using True idx by (intro nth_mem) simp
      then have "l1 ! i \<in> set (take idx (lst m))"
        using True idx by (simp add: l1_def nth_append)
      then have "l1 ! i \<notin> set ?tail" using dl1 by (auto simp: l1_def)
      then have "map_of d2 (l1 ! i) = map_of ?d1 (l1 ! i)"
        unfolding d2_def by (rule fold_update_notin)
      also have "\<dots> = map_of (data m) (l1 ! i)"
        using ID_notin i by (metis map_of_delete nth_mem)
      also have "\<dots> = Some i" using e at True idx by simp
      finally show ?thesis .
    next
      case False
      then have e: "l1 ! i = ?tail ! (i - idx)" using idx by (simp add: l1_def nth_append)
      have "i - idx < length ?tail" using False i idx by (simp add: l1_def)
      from fold_update_nth[OF dist_tail this, of "\<lambda>i. idx + i" 0 ?d1]
      show ?thesis using e False by (simp add: d2_def)
    qed
  qed
  have "length d2 = length l1"
    using keys_d2 len_d1 len len_l1 by (metis length_map)
  then show "IDmap_inv \<lparr>data = d2, lst = l1\<rparr>"
    using keys_d2 dist_d1 dl1 at2 by (simp add: IDmap_inv_iff)
  have "ID \<notin> set ?tail" using ID_notin by (simp add: l1_def)
  then have "map_of d2 ID = map_of ?d1 ID" unfolding d2_def by (rule fold_update_notin)
  then show "map_of d2 ID = None" by (simp add: delete_conv')
qed

text \<open>
  C7, as amended.  \<open>addID\<close> first canonicalizes the identifier: a string that
  \<open>float\<close> rejects is kept, a string whose float value is integral becomes the decimal
  string of that integer.  If the canonical identifier is present the call fails with
  AssertionError (the DuplicateIdError of the specification) and changes nothing.
  Otherwise the canonical identifier is appended: it is the last of the list, its
  index is the old size, the size grows by one and every other lookup is as before.
  The call returns no value.
\<close>

theorem addID_canonical_append:
  "(py_float py ID = None \<longrightarrow> canon py ID = ID) \<and>
   (\<forall>num. py_float py ID = Some num \<and> frac num = 0 \<longrightarrow>
      canon py ID = str_int \<lfloor>num\<rfloor>) \<and>
   (contains m (canon py ID) \<longrightarrow> addID py m ID = (Inl AssertionError, m)) \<and>
   (\<not> contains m (canon py ID) \<longrightarrow>
      fst (addID py m ID) = Inr None \<and>
      lst (snd (addID py m ID)) = lst m @ [canon py ID] \<and>
      getitem (snd (addID py m ID)) (canon py ID) = Inr (size_IDmap m) \<and>
      size_IDmap (snd (addID py m ID)) = Suc (size_IDmap m) \<and>
      (\<forall>k. k \<noteq> canon py ID \<longrightarrow> getitem (snd (addID py m ID)) k = getitem m k))"
proof (intro conjI impI allI)
  show "canon py ID = ID" if "py_float py ID = None"
    using that by (simp add: canon_def)
  show "canon py ID = str_int \<lfloor>num\<rfloor>"
    if "py_float py ID = Some num \<and> frac num = 0" for num
    using that by (simp add: canon_def)
  show "addID py m ID = (Inl AssertionError, m)" if "contains m (canon py ID)"
    using that by (rule addID_dup)
next
  assume new: "\<not> contains m (canon py ID)"
  note eq = addID_new[OF new]
  from new have none: "map_of (data m) (canon py ID) = None" by (simp add: contains_def)
  show "fst (addID py m ID) = Inr None" by (simp add: eq)
  show "lst (snd (addID py m ID)) = lst m @ [canon py ID]" by (simp add: eq)
  show "getitem (snd (addID py m ID)) (canon py ID) = Inr (size_IDmap m)"
    by (simp add: eq getitem_def update_conv' size_IDmap_def)
  show "size_IDmap (snd (addID py m ID)) = Suc (size_IDmap m)"
    using none by (simp add: eq size_IDmap_def length_update_new)
  show "getitem (snd (addID py m ID)) k = getitem m k" if "k \<noteq> canon py ID" for k
    using that by (simp add: eq getitem_def update_conv')
qed

theorem addID_canonical_append_witness:
  "py_float py0 ''gene'' = None \<and> canon py0 ''gene'' = ''gene'' \<and>
   py_float py0 ''1.0'' = Some 1 \<and> canon py0 ''1.0'' = ''1'' \<and> canon py0 ''1'' = ''1'' \<and>
   contains (snd (addID py0 IDmap_init ''1'')) (canon py0 ''1.0'') \<and>
   addID py0 (snd (addID py0 IDmap_init ''1'')) ''1.0'' =
     (Inl AssertionError, snd (addID py0 IDmap_init ''1'')) \<and>
   \<not> contains idmap_abc (canon py0 ''7.0'') \<and>
   fst (addID py0 idmap_abc ''7.0'') = Inr None \<and>
   lst (snd (addID py0 idmap_abc ''7.0'')) = [''a'', ''b'', ''c'', ''7''] \<and>
   getitem (snd (addID py0 idmap_abc ''7.0'')) ''7'' = Inr 3"
proof -
  have f1: "py_float py0 ''gene'' = None" by code_simp
  have f2: "py_float py0 ''1.0'' = Some 1 \<and> frac (1::real) = 0" by code_simp
  have f3: "contains (snd (addID py0 IDmap_init ''1'')) (canon py0 ''1.0'')" by code_simp
  have f4: "\<not> contains idmap_abc (canon py0 ''7.0'')" by code_simp
  have e1: "canon py0 ''1'' = ''1''" by code_simp
  have e2: "str_int \<lfloor>1::real\<rfloor> = ''1''" by code_simp
  have e3: "canon py0 ''7.0'' = ''7''" by code_simp
  have e4: "lst idmap_abc = [''a'', ''b'', ''c'']" by code_simp
  have e5: "size_IDmap idmap_abc = 3" by code_simp
  from addID_canonical_append[of py0 "''gene''" IDmap_init] f1
  have "canon py0 ''gene'' = ''gene''" by simp
  moreover from addID_canonical_append[of py0 "''1.0''" "snd (addID py0 IDmap_init ''1'')"] f2 f3
  have "canon py0 ''1.0'' = str_int \<lfloor>1::real\<rfloor> \<and>
        addID py0 (snd (addID py0 IDmap_init ''1'')) ''1.0'' =
          (Inl AssertionError, snd (addID py0 IDmap_init ''1''))" by simp
  moreover from addID_canonical_append[of py0 "''7.0''" idmap_abc] f4
  have "fst (addID py0 idmap_abc ''7.0'') = Inr None \<and>
        lst (snd (addID py0 idmap_abc ''7.0'')) = lst idmap_abc @ [canon py0 ''7.0''] \<and>
        getitem (snd (addID py0 idmap_abc ''7.0'')) (canon py0 ''7.0'') = Inr (size_IDmap idmap_abc)"
    by simp
  ultimately show ?thesis using f1 f2 f3 f4 e1 e2 e3 e4 e5 by simp
qed

text \<open>
  C7 as stated has the call return the new index.  On an empty IDmap the identifier
  \<open>a\<close> is new and gets index 0, and the value returned is not that index.
\<close>

theorem addID_returns_index_counterexample:
  "\<not> contains IDmap_init (canon py0 ''a'') \<and>
   fst (addID py0 IDmap_init ''a'') \<noteq> Inr (Some (size_IDmap IDmap_init))"
  by code_simp

text \<open>
  C8.  On an IDmap that satisfies the invariant, \<open>pop\<close> of an absent identifier fails
  with KeyError (the UnknownIdError of the specification) and changes nothing.  For
  an identifier at index \<open>idx\<close> it succeeds: the identifier is gone from the list and
  from the dict, every other identifier keeps its index if that was below \<open>idx\<close> and
  has it lowered by one if it was above, in the dict and in the list alike, and the
  invariant holds again.
\<close>

theorem pop_renumbers:
  assumes "IDmap_inv m"
  shows "(\<not> contains m ID \<longrightarrow> pop m ID = (Some KeyError, m)) \<and>
         (\<forall>idx. map_of (data m) ID = Some idx \<longrightarrow>
            fst (pop m ID) = None \<and>
            IDmap_inv (snd (pop m ID)) \<and>
            lst (snd (pop m ID)) = take idx (lst m) @ drop (Suc idx) (lst m) \<and>
            size_IDmap (snd (pop m ID)) = size_IDmap m - 1 \<and>
            \<not> contains (snd (pop m ID)) ID \<and>
            (\<forall>k j. k \<noteq> ID \<and> map_of (data m) k = Some j \<longrightarrow>
               map_of (data (snd (pop m ID))) k = Some (if idx < j then j - 1 else j)))"
proof (intro conjI impI allI)
  show "pop m ID = (Some KeyError, m)" if "\<not> contains m ID"
    using that by (rule pop_absent)
next
  fix idx assume look: "map_of (data m) ID = Some idx"
  let ?l1 = "take idx (lst m) @ drop (Suc idx) (lst m)"
  let ?d2 = "fold (\<lambda>(i, ID'). AList.update ID' (idx + i)) (enumerate 0 (drop (Suc idx) (lst m)))
               (AList.delete ID (data m))"
  note p = pop_present[OF assms look]
  from IDmap_inv_lookup[OF assms look] have idx: "idx < length (lst m)" and atidx: "lst m ! idx = ID"
    by simp_all
  from assms have len: "length (data m) = length (lst m)" and l: "distinct (lst m)"
    by (simp_all add: IDmap_inv_iff)
  show "fst (pop m ID) = None" by (simp add: p(1))
  show "IDmap_inv (snd (pop m ID))" using p(2) by (simp add: p(1))
  show "lst (snd (pop m ID)) = ?l1" by (simp add: p(1))
  have "length ?d2 = length ?l1" using p(2) by (simp add: IDmap_inv_iff)
  then show "size_IDmap (snd (pop m ID)) = size_IDmap m - 1"
    using idx len by (simp add: p(1) size_IDmap_def)
  show "\<not> contains (snd (pop m ID)) ID" using p(4) by (simp add: p(1) contains_def)
  show "map_of (data (snd (pop m ID))) k = Some (if idx < j then j - 1 else j)"
    if kj: "k \<noteq> ID \<and> map_of (data m) k = Some j" for k j
  proof -
    from IDmap_inv_lookup[OF assms conjunct2[OF kj]] have j: "j < length (lst m)" "lst m ! j = k"
      by simp_all
    have "j \<noteq> idx" using kj atidx j by auto
    show ?thesis
    proof (cases "idx < j")
      case True
      then have "\<not> j - 1 < idx" by simp
      then have "?l1 ! (j - 1) = drop (Suc idx) (lst m) ! (j - 1 - idx)"
        using idx by (simp add: nth_append)
      also have "\<dots> = lst m ! j" using True j by simp
      finally have "?l1 ! (j - 1) = k" using j by simp
      moreover have "j - 1 < length ?l1" using True j idx by simp
      ultimately show ?thesis using p(3) True by (auto simp: p(1))
    next
      case False
      with \<open>j \<noteq> idx\<close> have lt: "j < idx" by simp
      then have "?l1 ! j = k" using j idx by (simp add: nth_append)
      moreover have "j < length ?l1" using lt idx by simp
      ultimately show ?thesis using p(3) False by (auto simp: p(1))
    qed
  qed
qed

theorem pop_renumbers_witness:
  "IDmap_inv idmap_abc \<and> \<not> contains idmap_abc ''z'' \<and>
   pop idmap_abc ''z'' = (Some KeyError, idmap_abc) \<and>
   map_of (data idmap_abc) ''a'' = Some 0 \<and> map_of (data idmap_abc) ''c'' = Some 2 \<and>
   fst (pop idmap_abc ''a'') = None \<and>
   IDmap_inv (snd (pop idmap_abc ''a'')) \<and>
   lst (snd (pop idmap_abc ''a'')) = [''b'', ''c''] \<and>
   map_of (data (snd (pop idmap_abc ''a''))) ''c'' = Some 1"
proof -
  have h: "IDmap_inv idmap_abc" by code_simp
  have a1: "\<not> contains idmap_abc ''z''" by code_simp
  have a2: "map_of (data idmap_abc) ''a'' = Some 0" by code_simp
  have a3: "''c'' \<noteq> ''a'' \<and> map_of (data idmap_abc) ''c'' = Some 2" by code_simp
  have a4: "take 0 (lst idmap_abc) @ drop (Suc 0) (lst idmap_abc) = [''b'', ''c'']"
    by code_simp
  from pop_renumbers[OF h, of "''z''"] a1
  have "pop idmap_abc ''z'' = (Some KeyError, idmap_abc)" by simp
  moreover from pop_renumbers[OF h, of "''a''"] a2
  have r: "fst (pop idmap_abc ''a'') = None \<and> IDmap_inv (snd (pop idmap_abc ''a'')) \<and>
        lst (snd (pop idmap_abc ''a'')) = take 0 (lst idmap_abc) @ drop (Suc 0) (lst idmap_abc) \<and>
        (\<forall>k j. k \<noteq> ''a'' \<and> map_of (data idmap_abc) k = Some j \<longrightarrow>
           map_of (data (snd (pop idmap_abc ''a''))) k = Some (if 0 < j then j - 1 else j))"
    by simp
  moreover from r a3 have "map_of (data (snd (pop idmap_abc ''a''))) ''c'' = Some (if 0 < (2::nat) then 2 - 1 else 2)"
    by simp
  ultimately show ?thesis using h a1 a2 a3 a4 by simp
qed

section \<open>Properties of the edge engine\<close>

lemma getitem_Inr_iff: "getitem m k = Inr i \<longleftrightarrow> map_of (data m) k = Some i"
  by (simp add: getitem_def split: option.splits)

lemma getitem_Inl_iff: "getitem m k = Inl e \<longleftrightarrow> e = KeyError \<and> map_of (data m) k = None"
  by (auto simp: getitem_def split: option.splits)

lemma contains_iff: "contains m k \<longleftrightarrow> (\<exists>i. map_of (data m) k = Some i)"
  by (simp add: contains_def)

lemma rows_inv_index:
  assumes "rows_inv g" "map_of (data (idmap g)) a = Some i"
  shows "i < length (edge_data g)"
  using assms IDmap_inv_lookup[of "idmap g" a i] by (simp add: rows_inv_def rows_ok_def)

text \<open>The new weight and the adjacency list that \<open>_add_edge\<close> computes when it writes.\<close>

lemma priv_add_edge_writes:
  assumes "map_of (data (idmap g)) a = Some i" "map_of (data (idmap g)) b = Some j"
    and "i < length ed" "j < length ed" "self_loops g \<or> i \<noteq> j"
  shows "priv_add_edge g a b w r ed =
           (let w' = (case map_of (ed ! i) j of None \<Rightarrow> w | Some old \<Rightarrow> reduce_weight r old w);
                ed1 = ed[i := AList.update j w' (ed ! i)]
            in (None,
                if directed g then ed1 else ed1[j := AList.update i w' (ed1 ! j)],
                case map_of (ed ! i) j of None \<Rightarrow> []
                | Some old \<Rightarrow> if old \<noteq> w \<and> r = None then [EdgeOverwrite a b old w] else []))"
  using assms by (auto simp: priv_add_edge_def getitem_def Let_def)

lemma priv_add_edge_entry:
  assumes "map_of (data (idmap g)) a = Some i" "map_of (data (idmap g)) b = Some j"
    and "i < length ed" "j < length ed" "self_loops g \<or> i \<noteq> j"
  shows "map_of (fst (snd (priv_add_edge g a b w r ed)) ! i) j =
           Some (case map_of (ed ! i) j of None \<Rightarrow> w | Some old \<Rightarrow> reduce_weight r old w)"
  using assms
  by (cases "i = j")
     (simp_all add: priv_add_edge_writes[OF assms] Let_def update_conv')

lemma priv_default_add_id_known:
  "contains (self_idmap g) node_id \<Longrightarrow> priv_default_add_id f self_idmap g node_id = (None, g)"
  by (simp add: priv_default_add_id_def)

lemma SparseGraph_add_edge_known:
  assumes "r \<in> {None, Some ''max'', Some ''min''}"
    and "contains (idmap g) a" "contains (idmap g) b"
  shows "SparseGraph_add_edge f g a b w r =
           (case priv_add_edge g a b w r (edge_data g) of
              (err, ed, msgs) \<Rightarrow> (err, g\<lparr>edge_data := ed, logged := logged g @ msgs\<rparr>))"
  using assms by (auto simp: SparseGraph_add_edge_def priv_default_add_id_known)

lemma SparseGraph_add_edge_invalid:
  "r \<notin> {None, Some ''max'', Some ''min''} \<Longrightarrow>
   SparseGraph_add_edge f g a b w r = (Some ValueError, g)"
  by (simp add: SparseGraph_add_edge_def)

lemma edge_weight_of_Some:
  "edge_weight_of g a b = Some w \<longleftrightarrow>
     (\<exists>i j. map_of (data (idmap g)) a = Some i \<and> map_of (data (idmap g)) b = Some j \<and>
            i < length (edge_data g) \<and> map_of (edge_data g ! i) j = Some w)"
  by (auto simp: edge_weight_of_def split: option.splits)

lemma loop_inv_distinct:
  assumes "loop_inv g" "i < length (edge_data g)" "map_of (edge_data g ! i) j = Some w"
  shows "self_loops g \<or> i \<noteq> j"
  using assms by (auto simp: loop_inv_def list_all_iff)

lemma get_edge_known:
  assumes "map_of (data (idmap g)) a = Some i" "map_of (data (idmap g)) b = Some j"
    and "i < length (edge_data g)"
  shows "get_edge g a b = Inr (case map_of (edge_data g ! i) j of None \<Rightarrow> 0 | Some w \<Rightarrow> w)"
  using assms by (simp add: get_edge_def get_edge_lookup_def getitem_def split: option.splits)


text \<open>What a call of \<open>add_edge\<close> on an existing edge leaves behind.\<close>

lemma add_edge_existing:
  assumes inv: "graph_inv g" and old: "edge_weight_of g a b = Some w_old"
    and r: "r \<in> {None, Some ''max'', Some ''min''}"
  shows "fst (add_edge py g a b w_new r) = None"
    and "get_edge (snd (add_edge py g a b w_new r)) a b = Inr (reduce_weight r w_old w_new)"
    and "logged (snd (add_edge py g a b w_new r)) =
           logged g @ (if w_old \<noteq> w_new \<and> r = None then [EdgeOverwrite a b w_old w_new] else [])"
    and "idmap (snd (add_edge py g a b w_new r)) = idmap g"
proof -
  from old obtain i j where a: "map_of (data (idmap g)) a = Some i"
    and b: "map_of (data (idmap g)) b = Some j"
    and i: "i < length (edge_data g)" and e: "map_of (edge_data g ! i) j = Some w_old"
    by (auto simp: edge_weight_of_Some)
  from inv have rows: "rows_inv g" and loops: "loop_inv g" by (simp_all add: graph_inv_def)
  have j: "j < length (edge_data g)" by (rule rows_inv_index[OF rows b])
  have ne: "self_loops g \<or> i \<noteq> j" by (rule loop_inv_distinct[OF loops i e])
  have ca: "contains (idmap g) a" and cb: "contains (idmap g) b"
    using a b by (simp_all add: contains_def)
  note w = priv_add_edge_writes[OF a b i j ne, of w_new r]
  have eq: "add_edge py g a b w_new r =
          (case priv_add_edge g a b w_new r (edge_data g) of
             (err, ed, msgs) \<Rightarrow> (err, g\<lparr>edge_data := ed, logged := logged g @ msgs\<rparr>))"
    unfolding add_edge_def by (rule SparseGraph_add_edge_known[OF r ca cb])
  show "fst (add_edge py g a b w_new r) = None"
    by (simp add: eq w Let_def)
  show "logged (snd (add_edge py g a b w_new r)) =
           logged g @ (if w_old \<noteq> w_new \<and> r = None then [EdgeOverwrite a b w_old w_new] else [])"
    using e by (simp add: eq w Let_def)
  show "idmap (snd (add_edge py g a b w_new r)) = idmap g"
    by (simp add: eq w Let_def)
  have len: "length (fst (snd (priv_add_edge g a b w_new r (edge_data g)))) = length (edge_data g)"
    by (simp add: w Let_def)
  have ent: "map_of (fst (snd (priv_add_edge g a b w_new r (edge_data g))) ! i) j =
          Some (reduce_weight r w_old w_new)"
    using priv_add_edge_entry[OF a b i j ne, of w_new r] e by simp
  have "snd (add_edge py g a b w_new r) =
          g\<lparr>edge_data := fst (snd (priv_add_edge g a b w_new r (edge_data g))),
            logged := logged g @ snd (snd (priv_add_edge g a b w_new r (edge_data g)))\<rparr>"
    by (simp add: eq split: prod.splits)
  then show "get_edge (snd (add_edge py g a b w_new r)) a b = Inr (reduce_weight r w_old w_new)"
    using get_edge_known[of "snd (add_edge py g a b w_new r)" a i b j] a b i len ent
    by simp
qed

text \<open>
  C9.  With a reduction other than \<open>None\<close>, \<open>max\<close> and \<open>min\<close>, \<open>add_edge\<close> fails
  with ValueError (the InvalidArgumentError of the specification) and the graph it
  leaves behind is the graph it was given: no node is created and no entry written.
  This holds for \<open>SparseGraph\<close> and for \<open>DirectedSparseGraph\<close>.
\<close>

theorem add_edge_invalid_reduction:
  assumes "reduction \<notin> {None, Some ''max'', Some ''min''}"
  shows "add_edge py g a b w reduction = (Some ValueError, g) \<and>
         Directed_add_edge py dg a b w reduction = (Some ValueError, dg)"
  using assms
  by (simp add: add_edge_def Directed_add_edge_def SparseGraph_add_edge_invalid)

theorem add_edge_invalid_reduction_witness:
  "Some ''sum'' \<notin> {None, Some ''max'', Some ''min''} \<and>
   \<not> contains (idmap graph_example) ''7'' \<and>
   add_edge py0 graph_example ''1'' ''7'' 2 (Some ''sum'') = (Some ValueError, graph_example) \<and>
   Directed_add_edge py0 (DirectedSparseGraph_init True) ''a'' ''b'' 2 (Some ''sum'') =
     (Some ValueError, DirectedSparseGraph_init True)"
proof -
  have h: "Some ''sum'' \<notin> {None, Some ''max'', Some ''min''}" by simp
  have c: "\<not> contains (idmap graph_example) ''7''" by code_simp
  from add_edge_invalid_reduction[OF h, where py = py0 and g = graph_example and a = "''1''"
      and b = "''7''" and w = 2 and dg = "DirectedSparseGraph_init True"]
    add_edge_invalid_reduction[OF h, where py = py0 and g = graph_example and a = "''a''"
      and b = "''b''" and w = 2 and dg = "DirectedSparseGraph_init True"]
  show ?thesis using h c by simp
qed




text \<open>
  C1, as amended.  Reading the example edge list as a weighted, undirected graph with
  threshold 0 gives the graph \<open>graph_example\<close>: it has 4 nodes, the edge between
  \<open>1\<close> and \<open>3\<close> has weight 0.4 and the edge between \<open>2\<close> and \<open>1\<close> weight 1, and
  \<open>num_edges\<close>, the sum of the sizes of the neighbour dicts, is 6, since each of the
  three edges is stored in both directions.
\<close>

theorem from_edglst_example:
  "from_edglst py0 edglst_example True False 0 = Inr graph_example \<and>
   size_graph graph_example = 4 \<and>
   num_edges graph_example = 6 \<and>
   get_edge graph_example ''1'' ''3'' = Inr (4 / 10) \<and>
   get_edge graph_example ''2'' ''1'' = Inr 1"
  by code_simp

text \<open>C1 as stated has \<open>num_edges\<close> equal to 3 on the graph read from the example.\<close>

theorem from_edglst_num_edges_counterexample:
  "from_edglst py0 edglst_example True False 0 = Inr graph_example \<and>
   num_edges graph_example \<noteq> 3"
  by code_simp

text \<open>
  C2.  In a graph that satisfies the invariants of the data model, let the edge from
  \<open>a\<close> to \<open>b\<close> be stored with weight \<open>w_old\<close>.  Then \<open>add_edge\<close> with weight \<open>w_new\<close>
  succeeds and stores the maximum of the two weights under \<open>max\<close>, the minimum under
  \<open>min\<close>, and \<open>w_new\<close> without a reduction; in the last case a warning is logged if
  the weights differ, and nothing is logged otherwise or under \<open>max\<close> and \<open>min\<close>.
\<close>

theorem add_edge_reduction:
  assumes "graph_inv g" and "edge_weight_of g a b = Some w_old"
  shows "fst (add_edge py g a b w_new (Some ''max'')) = None \<and>
         get_edge (snd (add_edge py g a b w_new (Some ''max''))) a b = Inr (max w_old w_new) \<and>
         logged (snd (add_edge py g a b w_new (Some ''max''))) = logged g \<and>
         fst (add_edge py g a b w_new (Some ''min'')) = None \<and>
         get_edge (snd (add_edge py g a b w_new (Some ''min''))) a b = Inr (min w_old w_new) \<and>
         logged (snd (add_edge py g a b w_new (Some ''min''))) = logged g \<and>
         fst (add_edge py g a b w_new None) = None \<and>
         get_edge (snd (add_edge py g a b w_new None)) a b = Inr w_new \<and>
         logged (snd (add_edge py g a b w_new None)) =
           logged g @ (if w_old \<noteq> w_new then [EdgeOverwrite a b w_old w_new] else [])"
proof -
  have r: "Some ''max'' \<in> {None, Some ''max'', Some ''min''}"
    "Some ''min'' \<in> {None, Some ''max'', Some ''min''}"
    "None \<in> {None, Some ''max'', Some ''min''}"
    by simp_all
  note mx = add_edge_existing[OF assms r(1), of py w_new]
  note mn = add_edge_existing[OF assms r(2), of py w_new]
  note no = add_edge_existing[OF assms r(3), of py w_new]
  have "reduce_weight (Some ''max'') w_old w_new = max w_old w_new"
    "reduce_weight (Some ''min'') w_old w_new = min w_old w_new"
    "reduce_weight None w_old w_new = w_new"
    by (simp_all add: reduce_weight_def)
  then show ?thesis using mx(1-3) mn(1-3) no(1-3) by simp
qed

theorem add_edge_reduction_witness:
  "graph_inv (snd (add_edge py0 (SparseGraph_init True False False) ''a'' ''b'' 1 None)) \<and>
   edge_weight_of (snd (add_edge py0 (SparseGraph_init True False False) ''a'' ''b'' 1 None))
     ''a'' ''b'' = Some 1 \<and>
   get_edge (snd (add_edge py0 (snd (add_edge py0 (SparseGraph_init True False False)
     ''a'' ''b'' 1 None)) ''a'' ''b'' 3 (Some ''max''))) ''a'' ''b'' = Inr 3 \<and>
   get_edge (snd (add_edge py0 (snd (add_edge py0 (SparseGraph_init True False False)
     ''a'' ''b'' 1 None)) ''a'' ''b'' 3 (Some ''min''))) ''a'' ''b'' = Inr 1 \<and>
   get_edge (snd (add_edge py0 (snd (add_edge py0 (SparseGraph_init True False False)
     ''a'' ''b'' 1 None)) ''a'' ''b'' 3 None)) ''a'' ''b'' = Inr 3 \<and>
   fst (add_edge py0 (snd (add_edge py0 (SparseGraph_init True False False)
     ''a'' ''b'' 1 None)) ''a'' ''b'' 3 None) = None \<and>
   logged (snd (add_edge py0 (snd (add_edge py0 (SparseGraph_init True False False)
     ''a'' ''b'' 1 None)) ''a'' ''b'' 3 None)) = [EdgeOverwrite ''a'' ''b'' 1 3]"
proof -
  let ?g = "snd (add_edge py0 (SparseGraph_init True False False) ''a'' ''b'' 1 None)"
  have h1: "graph_inv ?g" by code_simp
  have h2: "edge_weight_of ?g ''a'' ''b'' = Some 1" by code_simp
  have l: "logged ?g = []" by code_simp
  from add_edge_reduction[OF h1 h2, of py0 3] show ?thesis using h1 h2 l by simp
qed

section \<open>Properties of the adjacency stores\<close>

lemma list_all_keys:
  "list_all (\<lambda>(j, w). j < n) row \<longleftrightarrow> (\<forall>j w. (j, w) \<in> set row \<longrightarrow> j < n)"
  for row :: nbrs
  by (auto simp: list_all_iff)

lemma rows_ok_nth:
  "rows_ok n ed \<longleftrightarrow>
     length ed = n \<and>
     (\<forall>i<length ed. distinct (map fst (ed ! i)) \<and> list_all (\<lambda>(j, w). j < n) (ed ! i))"
  unfolding rows_ok_def list_all_length by (rule refl)

lemma rows_ok_iff:
  "rows_ok n ed \<longleftrightarrow>
     length ed = n \<and>
     (\<forall>i<n. distinct (map fst (ed ! i)) \<and> (\<forall>j w. (j, w) \<in> set (ed ! i) \<longrightarrow> j < n))"
  unfolding rows_ok_nth list_all_keys by auto

lemma rows_ok_lookup:
  assumes "rows_ok n ed" "i < n"
  shows "map_of (ed ! i) j = Some w \<longleftrightarrow> (j, w) \<in> set (ed ! i)"
  using assms by (simp add: rows_ok_iff)

lemma rows_ok_key:
  assumes "rows_ok n ed" "i < n" "map_of (ed ! i) j = Some w"
  shows "j < n"
proof -
  from assms(3) have "(j, w) \<in> set (ed ! i)" by (rule map_of_SomeD)
  with assms(1,2) show ?thesis by (auto simp: rows_ok_iff)
qed

lemma rows_ok_empty: "rows_ok 0 []"
  by (simp add: rows_ok_def)

lemma rows_ok_append:
  assumes "rows_ok n ed"
  shows "rows_ok (Suc n) (ed @ [[]])"
  unfolding rows_ok_iff
proof (intro conjI allI impI)
  show "length (ed @ [[]]) = Suc n" using assms by (simp add: rows_ok_iff)
next
  fix i assume "i < Suc n"
  then show "distinct (map fst ((ed @ [[]]) ! i))"
    using assms by (cases "i < n") (simp_all add: rows_ok_iff nth_append)
next
  fix i j w assume "i < Suc n" "(j, w) \<in> set ((ed @ [[]]) ! i)"
  then have "i < n \<and> (j, w) \<in> set (ed ! i)"
    using assms by (cases "i < n") (simp_all add: rows_ok_iff nth_append)
  then have "j < n" using assms by (auto simp: rows_ok_iff)
  then show "j < Suc n" by simp
qed

lemma set_update_subset: "set (AList.update k v al) \<subseteq> insert (k, v) (set al)"
  by (induction al) auto

lemma rows_ok_update:
  assumes "rows_ok n ed" "i < n" "j < n"
  shows "rows_ok n (ed[i := AList.update j w (ed ! i)])"
  unfolding rows_ok_iff
proof (intro conjI allI impI)
  show "length (ed[i := AList.update j w (ed ! i)]) = n" using assms by (simp add: rows_ok_iff)
next
  fix p assume "p < n"
  then show "distinct (map fst (ed[i := AList.update j w (ed ! i)] ! p))"
    using assms by (cases "p = i") (simp_all add: rows_ok_iff distinct_update)
next
  fix p q v assume p: "p < n" and m: "(q, v) \<in> set (ed[i := AList.update j w (ed ! i)] ! p)"
  show "q < n"
  proof (cases "p = i")
    case True
    with m assms have "(q, v) \<in> set (AList.update j w (ed ! i))" by (simp add: rows_ok_iff)
    then have "(q, v) = (j, w) \<or> (q, v) \<in> set (ed ! i)" using set_update_subset by fastforce
    then show ?thesis using assms by (auto simp: rows_ok_iff)
  next
    case False
    with m p assms show ?thesis by (auto simp: rows_ok_iff)
  qed
qed

lemma nth_update_lookup:
  assumes "i < length ed" "p < length ed"
  shows "map_of (ed[i := AList.update j w (ed ! i)] ! p) q =
           (if p = i \<and> q = j then Some w else map_of (ed ! p) q)"
  using assms by (cases "p = i") (simp_all add: update_conv')

lemma list_all_upt: "list_all P [0..<n] \<longleftrightarrow> (\<forall>i<n. P i)"
  by (auto simp: list_all_iff)

lemma list_all_pair:
  "list_all (\<lambda>(j, w). Q j w) row \<longleftrightarrow> (\<forall>j w. (j, w) \<in> set row \<longrightarrow> Q j w)"
  by (auto simp: list_all_iff)

lemma mirrored_nth:
  "mirrored fwd rv \<longleftrightarrow>
     length fwd = length rv \<and>
     (\<forall>i<length fwd. \<forall>j w. (j, w) \<in> set (fwd ! i) \<longrightarrow>
        j < length rv \<and> map_of (rv ! j) i = Some w) \<and>
     (\<forall>j<length rv. \<forall>i w. (i, w) \<in> set (rv ! j) \<longrightarrow>
        i < length fwd \<and> map_of (fwd ! i) j = Some w)"
  unfolding mirrored_def list_all_upt list_all_pair by (rule refl)

lemma mirrored_iff:
  assumes f: "rows_ok n fwd" and r: "rows_ok n rv"
  shows "mirrored fwd rv \<longleftrightarrow> (\<forall>i<n. \<forall>j<n. map_of (fwd ! i) j = map_of (rv ! j) i)"
proof
  assume m: "mirrored fwd rv"
  from f r have len: "length fwd = n" "length rv = n" by (simp_all add: rows_ok_iff)
  note mm = m[unfolded mirrored_nth]
  note m1 = conjunct1[OF conjunct2[OF mm]]
  note m2 = conjunct2[OF conjunct2[OF mm]]
  have fr: "map_of (rv ! j) i = Some w" if "i < n" "(j, w) \<in> set (fwd ! i)" for i j w
    using m1 that len by simp
  have rf: "map_of (fwd ! i) j = Some w" if "j < n" "(i, w) \<in> set (rv ! j)" for i j w
    using m2 that len by simp
  show "\<forall>i<n. \<forall>j<n. map_of (fwd ! i) j = map_of (rv ! j) i"
  proof (intro allI impI)
    fix i j assume i: "i < n" and j: "j < n"
    show "map_of (fwd ! i) j = map_of (rv ! j) i"
    proof (cases "map_of (fwd ! i) j")
      case (Some w)
      then have "(j, w) \<in> set (fwd ! i)" by (rule map_of_SomeD)
      from fr[OF i this] Some show ?thesis by simp
    next
      case None
      show ?thesis
      proof (cases "map_of (rv ! j) i")
        case (Some w)
        then have "(i, w) \<in> set (rv ! j)" by (rule map_of_SomeD)
        from rf[OF j this] None show ?thesis by simp
      next
        case None': None
        with None show ?thesis by simp
      qed
    qed
  qed
next
  assume eq: "\<forall>i<n. \<forall>j<n. map_of (fwd ! i) j = map_of (rv ! j) i"
  from f r have len: "length fwd = n" "length rv = n" by (simp_all add: rows_ok_iff)
  have a: "j < length rv \<and> map_of (rv ! j) i = Some w"
    if "i < n" "(j, w) \<in> set (fwd ! i)" for i j w
  proof -
    from that f have s: "map_of (fwd ! i) j = Some w" by (simp add: rows_ok_lookup)
    from rows_ok_key[OF f that(1) s] have j: "j < n" .
    from eq that(1) j have "map_of (fwd ! i) j = map_of (rv ! j) i" by simp
    with s j len show ?thesis by simp
  qed
  have b: "i < length fwd \<and> map_of (fwd ! i) j = Some w"
    if "j < n" "(i, w) \<in> set (rv ! j)" for i j w
  proof -
    from that r have s: "map_of (rv ! j) i = Some w" by (simp add: rows_ok_lookup)
    from rows_ok_key[OF r that(1) s] have i: "i < n" .
    from eq that(1) i have "map_of (fwd ! i) j = map_of (rv ! j) i" by simp
    with s i len show ?thesis by simp
  qed
  show "mirrored fwd rv"
    unfolding mirrored_nth
  proof (intro conjI allI impI)
    show "length fwd = length rv" using len by simp
  next
    fix i j w assume "i < length fwd" "(j, w) \<in> set (fwd ! i)"
    with a[of i j w] len show "j < length rv" "map_of (rv ! j) i = Some w" by simp_all
  next
    fix i j w assume "j < length rv" "(i, w) \<in> set (rv ! j)"
    with b[of j i w] len show "i < length fwd" "map_of (fwd ! i) j = Some w" by simp_all
  qed
qed

lemma Directed_inv_init: "Directed_inv (DirectedSparseGraph_init w)"
  by (simp add: Directed_inv_def DirectedSparseGraph_init_def IDmap_inv_init rows_ok_empty
      mirrored_def)
    (simp add: IDmap_init_def rows_ok_empty)

lemma Directed_inv_logged: "Directed_inv (g\<lparr>logged := l\<rparr>) = Directed_inv g"
  by (simp add: Directed_inv_def)

lemma addID_lst_length:
  "length (lst (snd (addID py m x))) = (if contains m (canon py x) then length (lst m)
                                         else Suc (length (lst m)))"
  by (simp add: addID_def Let_def)

lemma Directed_add_id_inv:
  assumes "Directed_inv g"
  shows "Directed_inv (snd (Directed_add_id py g x))"
proof (cases "contains (idmap g) (canon py x)")
  case True
  then show ?thesis using assms by (simp add: Directed_add_id_def addID_dup)
next
  case False
  let ?n = "length (lst (idmap g))"
  let ?m = "snd (addID py (idmap g) x)"
  from assms have inv: "IDmap_inv (idmap g)" and f: "rows_ok ?n (edge_data g)"
    and r: "rows_ok ?n (rev_edge_data g)" and m: "mirrored (edge_data g) (rev_edge_data g)"
    and d: "directed g"
    by (simp_all add: Directed_inv_def)
  have eq: "snd (Directed_add_id py g x) =
         g\<lparr>idmap := ?m, edge_data := edge_data g @ [[]], rev_edge_data := rev_edge_data g @ [[]]\<rparr>"
    using False by (simp add: Directed_add_id_def addID_new)
  have n: "length (lst ?m) = Suc ?n" using False by (simp add: addID_lst_length)
  have f': "rows_ok (Suc ?n) (edge_data g @ [[]])" by (rule rows_ok_append[OF f])
  have r': "rows_ok (Suc ?n) (rev_edge_data g @ [[]])" by (rule rows_ok_append[OF r])
  from f r have len: "length (edge_data g) = ?n" "length (rev_edge_data g) = ?n"
    by (simp_all add: rows_ok_iff)
  have old: "\<forall>i<?n. \<forall>j<?n. map_of (edge_data g ! i) j = map_of (rev_edge_data g ! j) i"
    using m mirrored_iff[OF f r] by simp
  have none_f: "map_of (edge_data g ! i) ?n = None" if "i < ?n" for i
  proof (cases "map_of (edge_data g ! i) ?n")
    case (Some w)
    from rows_ok_key[OF f that Some] show ?thesis by simp
  qed simp
  have none_r: "map_of (rev_edge_data g ! i) ?n = None" if "i < ?n" for i
  proof (cases "map_of (rev_edge_data g ! i) ?n")
    case (Some w)
    from rows_ok_key[OF r that Some] show ?thesis by simp
  qed simp
  have "\<forall>i<Suc ?n. \<forall>j<Suc ?n.
          map_of ((edge_data g @ [[]]) ! i) j = map_of ((rev_edge_data g @ [[]]) ! j) i"
  proof (intro allI impI)
    fix i j assume ij: "i < Suc ?n" "j < Suc ?n"
    show "map_of ((edge_data g @ [[]]) ! i) j = map_of ((rev_edge_data g @ [[]]) ! j) i"
    proof (cases "i < ?n")
      case i: True
      show ?thesis
      proof (cases "j < ?n")
        case True
        with i old len show ?thesis by (simp add: nth_append)
      next
        case False
        with ij have "j = ?n" by simp
        with i len none_f[OF i] show ?thesis by (simp add: nth_append)
      qed
    next
      case False
      with ij have i: "i = ?n" by simp
      show ?thesis
      proof (cases "j < ?n")
        case True
        with i len none_r[OF True] show ?thesis by (simp add: nth_append)
      next
        case False
        with ij have "j = ?n" by simp
        with i len show ?thesis by (simp add: nth_append)
      qed
    qed
  qed
  then have "mirrored (edge_data g @ [[]]) (rev_edge_data g @ [[]])"
    using mirrored_iff[OF f' r'] by simp
  then show ?thesis
    using f' r' n d addID_inv[OF inv, of py x] by (simp add: eq Directed_inv_def)
qed

lemma add_id_list_inv:
  assumes step: "\<And>g x. P g \<Longrightarrow> P (snd (f g x))"
  shows "P g \<Longrightarrow> P (snd (add_id_list f g xs))"
proof (induction xs arbitrary: g)
  case Nil
  then show ?case by simp
next
  case (Cons x xs)
  from step[OF Cons.prems, of x] have p: "P (snd (f g x))" .
  show ?case
  proof (cases "f g x")
    case (Pair err g1)
    with p have "P g1" by simp
    then show ?thesis using Pair Cons.IH[of g1] by (cases err) simp_all
  qed
qed

lemma priv_default_add_id_inv:
  assumes "\<And>g x. P g \<Longrightarrow> P (snd (f g x))" "P g"
  shows "P (snd (priv_default_add_id f self_idmap g x))"
  using assms by (simp add: priv_default_add_id_def)

lemma mirrored_update:
  assumes f: "rows_ok n fwd" and r: "rows_ok n rv" and m: "mirrored fwd rv"
    and i: "i < n" and j: "j < n"
  shows "mirrored (fwd[i := AList.update j v (fwd ! i)]) (rv[j := AList.update i v (rv ! j)])"
proof -
  let ?f = "fwd[i := AList.update j v (fwd ! i)]" and ?r = "rv[j := AList.update i v (rv ! j)]"
  have f': "rows_ok n ?f" by (rule rows_ok_update[OF f i j])
  have r': "rows_ok n ?r" by (rule rows_ok_update[OF r j i])
  from f r have len: "length fwd = n" "length rv = n" by (simp_all add: rows_ok_iff)
  from m have old: "\<forall>p<n. \<forall>q<n. map_of (fwd ! p) q = map_of (rv ! q) p"
    using mirrored_iff[OF f r] by simp
  have "\<forall>p<n. \<forall>q<n. map_of (?f ! p) q = map_of (?r ! q) p"
  proof (intro allI impI)
    fix p q assume p: "p < n" and q: "q < n"
    have "map_of (?f ! p) q = (if p = i \<and> q = j then Some v else map_of (fwd ! p) q)"
      using nth_update_lookup[of i fwd p j v q] i p len by simp
    moreover have "map_of (?r ! q) p = (if q = j \<and> p = i then Some v else map_of (rv ! q) p)"
      using nth_update_lookup[of j rv q i v p] j q len by simp
    ultimately show "map_of (?f ! p) q = map_of (?r ! q) p"
      using old p q by auto
  qed
  then show ?thesis using mirrored_iff[OF f' r'] by simp
qed

text \<open>\<open>_add_edge\<close> on a directed graph, case by case.\<close>

lemma priv_add_edge_directed:
  assumes "directed g"
  shows "priv_add_edge g a b w r ed =
           (case map_of (data (idmap g)) a of
              None \<Rightarrow> (Some KeyError, ed, [])
            | Some i \<Rightarrow>
                (case map_of (data (idmap g)) b of
                   None \<Rightarrow> (Some KeyError, ed, [])
                 | Some j \<Rightarrow>
                     if \<not> self_loops g \<and> i = j then (None, ed, [])
                     else if length ed \<le> i then (Some IndexError, ed, [])
                     else (None,
                           ed[i := AList.update j
                                (case map_of (ed ! i) j of None \<Rightarrow> w
                                 | Some old \<Rightarrow> reduce_weight r old w) (ed ! i)],
                           case map_of (ed ! i) j of None \<Rightarrow> []
                           | Some old \<Rightarrow> if old \<noteq> w \<and> r = None
                                         then [EdgeOverwrite a b old w] else [])))"
  using assms by (simp add: priv_add_edge_def getitem_def Let_def split: option.splits)

lemma Directed_write_inv:
  assumes inv: "Directed_inv g"
  shows "Directed_inv
           (snd (case priv_add_edge g a b w r (edge_data g) of
                   (err, ed, msgs) \<Rightarrow>
                     (case (err, g\<lparr>edge_data := ed, logged := logged g @ msgs\<rparr>) of
                        (Some e, g1) \<Rightarrow> (Some e, g1)
                      | (None, g1) \<Rightarrow>
                          (case priv_add_edge g1 b a w r (rev_edge_data g1) of
                             (err, ed, msgs) \<Rightarrow>
                               (err, g1\<lparr>rev_edge_data := ed, logged := logged g1 @ msgs\<rparr>)))))"
proof -
  let ?n = "length (lst (idmap g))"
  from inv have im: "IDmap_inv (idmap g)" and f: "rows_ok ?n (edge_data g)"
    and r: "rows_ok ?n (rev_edge_data g)" and m: "mirrored (edge_data g) (rev_edge_data g)"
    and d: "directed g"
    by (simp_all add: Directed_inv_def)
  from f r have len: "length (edge_data g) = ?n" "length (rev_edge_data g) = ?n"
    by (simp_all add: rows_ok_iff)
  show ?thesis
  proof (cases "map_of (data (idmap g)) a")
    case None
    then show ?thesis using inv d by (simp add: priv_add_edge_directed Directed_inv_def)
  next
    case a: (Some i)
    show ?thesis
    proof (cases "map_of (data (idmap g)) b")
      case None
      then show ?thesis using inv d a by (simp add: priv_add_edge_directed Directed_inv_def)
    next
      case b: (Some j)
      from IDmap_inv_lookup[OF im a] IDmap_inv_lookup[OF im b] have i: "i < ?n" and j: "j < ?n"
        by simp_all
      show ?thesis
      proof (cases "\<not> self_loops g \<and> i = j")
        case True
        then show ?thesis using inv d a b by (simp add: priv_add_edge_directed Directed_inv_def)
      next
        case False
        let ?v = "case map_of (edge_data g ! i) j of None \<Rightarrow> w | Some old \<Rightarrow> reduce_weight r old w"
        have same: "map_of (rev_edge_data g ! j) i = map_of (edge_data g ! i) j"
          using m mirrored_iff[OF f r] i j by simp
        have f': "rows_ok ?n ((edge_data g)[i := AList.update j ?v (edge_data g ! i)])"
          by (rule rows_ok_update[OF f i j])
        have r': "rows_ok ?n ((rev_edge_data g)[j := AList.update i ?v (rev_edge_data g ! j)])"
          by (rule rows_ok_update[OF r j i])
        have m': "mirrored ((edge_data g)[i := AList.update j ?v (edge_data g ! i)])
                   ((rev_edge_data g)[j := AList.update i ?v (rev_edge_data g ! j)])"
          by (rule mirrored_update[OF f r m i j])
        show ?thesis
        proof (cases "self_loops g")
          case True
          then show ?thesis
            using d a b i j len same im f' r' m'
            by (simp add: priv_add_edge_directed Directed_inv_def)
        next
          case nl: False
          with False have "i \<noteq> j" "j \<noteq> i" by auto
          then show ?thesis
            using nl d a b i j len same im f' r' m'
            by (simp add: priv_add_edge_directed Directed_inv_def)
        qed
      qed
    qed
  qed
qed

lemma Directed_add_edge_inv:
  assumes inv: "Directed_inv g"
  shows "Directed_inv (snd (Directed_add_edge py g a b w r))"
proof (cases "r \<in> {None, Some ''max'', Some ''min''}")
  case False
  then show ?thesis
    using inv by (simp add: Directed_add_edge_def SparseGraph_add_edge_invalid)
next
  case True
  let ?d = "priv_default_add_id (Directed_add_id py) idmap"
  obtain e1 g1 where r1: "?d g a = (e1, g1)" by (cases "?d g a")
  obtain e2 g2 where r2: "?d g1 b = (e2, g2)" by (cases "?d g1 b")
  have i1: "Directed_inv g1"
    using priv_default_add_id_inv[of Directed_inv "Directed_add_id py" g idmap a]
      Directed_add_id_inv inv r1 by simp
  have i2: "Directed_inv g2"
    using priv_default_add_id_inv[of Directed_inv "Directed_add_id py" g1 idmap b]
      Directed_add_id_inv i1 r2 by simp
  show ?thesis
  proof (cases e1)
    case (Some e)
    then show ?thesis
      using True r1 i1 by (simp add: Directed_add_edge_def SparseGraph_add_edge_def)
  next
    case n1: None
    show ?thesis
    proof (cases e2)
      case (Some e)
      then show ?thesis
        using True r1 r2 n1 i2 by (simp add: Directed_add_edge_def SparseGraph_add_edge_def)
    next
      case n2: None
      have eq: "Directed_add_edge py g a b w r =
              (case priv_add_edge g2 a b w r (edge_data g2) of
                   (err, ed, msgs) \<Rightarrow>
                     (case (err, g2\<lparr>edge_data := ed, logged := logged g2 @ msgs\<rparr>) of
                        (Some e, g1) \<Rightarrow> (Some e, g1)
                      | (None, g1) \<Rightarrow>
                          (case priv_add_edge g1 b a w r (rev_edge_data g1) of
                             (err, ed, msgs) \<Rightarrow>
                               (err, g1\<lparr>rev_edge_data := ed, logged := logged g1 @ msgs\<rparr>))))"
        using True r1 r2 n1 n2
        by (simp add: Directed_add_edge_def SparseGraph_add_edge_def split: prod.splits)
      show ?thesis unfolding eq by (rule Directed_write_inv[OF i2])
    qed
  qed
qed

lemma Directed_call_inv:
  assumes "Directed_inv g"
  shows "Directed_inv (snd (Directed_call py g c))"
proof (cases c)
  case (AddId x)
  then show ?thesis using Directed_add_id_inv[OF assms] by simp
next
  case (AddIdList xs)
  then show ?thesis
    using add_id_list_inv[of Directed_inv "Directed_add_id py" g xs] Directed_add_id_inv assms
    by simp
next
  case (AddEdge a b w r)
  then show ?thesis using Directed_add_edge_inv[OF assms] by simp
qed

lemma Directed_calls_inv:
  "Directed_inv g \<Longrightarrow> Directed_inv (Directed_calls py g ops)"
  unfolding Directed_calls_def
  by (induction ops arbitrary: g) (simp_all add: Directed_call_inv)

text \<open>
  C4.  After every sequence of \<open>add_id\<close> and \<open>add_edge\<close> calls on a fresh
  \<open>DirectedSparseGraph\<close>, whether the calls succeed or raise, the reverse store
  mirrors the forward store: every entry \<open>forward[i][j] = w\<close> has the entry
  \<open>reverse[j][i] = w\<close>, every entry of the reverse store comes from one of the forward
  store, and so \<open>reverse[j][i]\<close> and \<open>forward[i][j]\<close> are the same for all nodes
  \<open>i\<close> and \<open>j\<close>, stored or not.
\<close>

theorem Directed_reverse_mirrors_forward:
  "mirrored (edge_data (Directed_calls py (DirectedSparseGraph_init wt) ops))
            (rev_edge_data (Directed_calls py (DirectedSparseGraph_init wt) ops)) \<and>
   (\<forall>i j. i < size_graph (Directed_calls py (DirectedSparseGraph_init wt) ops) \<and>
          j < size_graph (Directed_calls py (DirectedSparseGraph_init wt) ops) \<longrightarrow>
      map_of (rev_edge_data (Directed_calls py (DirectedSparseGraph_init wt) ops) ! j) i =
      map_of (edge_data (Directed_calls py (DirectedSparseGraph_init wt) ops) ! i) j)"
proof -
  let ?g = "Directed_calls py (DirectedSparseGraph_init wt) ops"
  have inv: "Directed_inv ?g" by (rule Directed_calls_inv[OF Directed_inv_init])
  then have im: "IDmap_inv (idmap ?g)" and f: "rows_ok (length (lst (idmap ?g))) (edge_data ?g)"
    and r: "rows_ok (length (lst (idmap ?g))) (rev_edge_data ?g)"
    and m: "mirrored (edge_data ?g) (rev_edge_data ?g)"
    by (simp_all add: Directed_inv_def)
  have n: "size_graph ?g = length (lst (idmap ?g))"
    using im by (simp add: size_graph_def size_IDmap_def IDmap_inv_iff)
  from m mirrored_iff[OF f r] have "\<forall>i<length (lst (idmap ?g)). \<forall>j<length (lst (idmap ?g)).
      map_of (edge_data ?g ! i) j = map_of (rev_edge_data ?g ! j) i" by simp
  with m n show ?thesis by simp
qed

theorem Directed_reverse_mirrors_forward_witness:
  "getitem (idmap (Directed_calls py0 (DirectedSparseGraph_init True) [AddEdge ''a'' ''b'' 2 None]))
     ''a'' = Inr 0 \<and>
   getitem (idmap (Directed_calls py0 (DirectedSparseGraph_init True) [AddEdge ''a'' ''b'' 2 None]))
     ''b'' = Inr 1 \<and>
   size_graph (Directed_calls py0 (DirectedSparseGraph_init True) [AddEdge ''a'' ''b'' 2 None]) = 2 \<and>
   map_of (edge_data (Directed_calls py0 (DirectedSparseGraph_init True)
     [AddEdge ''a'' ''b'' 2 None]) ! 0) 1 = Some 2 \<and>
   map_of (rev_edge_data (Directed_calls py0 (DirectedSparseGraph_init True)
     [AddEdge ''a'' ''b'' 2 None]) ! 1) 0 = Some 2 \<and>
   map_of (edge_data (Directed_calls py0 (DirectedSparseGraph_init True)
     [AddEdge ''a'' ''b'' 2 None]) ! 1) 0 = None \<and>
   mirrored (edge_data (Directed_calls py0 (DirectedSparseGraph_init True)
               [AddEdge ''a'' ''b'' 2 None]))
            (rev_edge_data (Directed_calls py0 (DirectedSparseGraph_init True)
               [AddEdge ''a'' ''b'' 2 None]))"
proof -
  let ?g = "Directed_calls py0 (DirectedSparseGraph_init True) [AddEdge ''a'' ''b'' 2 None]"
  have a: "getitem (idmap ?g) ''a'' = Inr 0" by code_simp
  have b: "getitem (idmap ?g) ''b'' = Inr 1" by code_simp
  have n: "size_graph ?g = 2" by code_simp
  have f: "map_of (edge_data ?g ! 0) 1 = Some 2" by code_simp
  have f': "map_of (edge_data ?g ! 1) 0 = None" by code_simp
  note t = Directed_reverse_mirrors_forward[of py0 True "[AddEdge ''a'' ''b'' 2 None]"]
  from t have m: "mirrored (edge_data ?g) (rev_edge_data ?g)" by (rule conjunct1)
  from t have "0 < size_graph ?g \<and> 1 < size_graph ?g \<longrightarrow>
      map_of (rev_edge_data ?g ! 1) 0 = map_of (edge_data ?g ! 0) 1"
    by (elim conjE allE)
  with n f have r: "map_of (rev_edge_data ?g ! 1) 0 = Some 2" by simp
  from a b n f f' r m show ?thesis by (intro conjI)
qed

section \<open>The edge generator and the graph it runs on\<close>

text \<open>
  C10.  On the example graph, which is undirected and satisfies the invariants, the
  generator yields each of the three edges once, and the graph it leaves behind has
  lost the mirrored entry of each of them: the adjacency list has changed,
  \<open>num_edges\<close> has dropped from 6 to 3, and the edge from \<open>3\<close> to \<open>1\<close> is gone while
  the edge from \<open>1\<close> to \<open>3\<close> is still there.
\<close>

theorem edge_gen_mutates_graph:
  "\<not> directed graph_example \<and> graph_inv graph_example \<and>
   fst (edge_gen graph_example) = None \<and>
   fst (snd (edge_gen graph_example)) =
     [(''1'', ''3'', 4 / 10), (''1'', ''2'', 1), (''3'', ''4'', 1 / 10)] \<and>
   edge_data (snd (snd (edge_gen graph_example))) = [[(1, 4 / 10), (2, 1)], [(3, 1 / 10)], [], []] \<and>
   edge_data (snd (snd (edge_gen graph_example))) \<noteq> edge_data graph_example \<and>
   num_edges graph_example = 6 \<and>
   num_edges (snd (snd (edge_gen graph_example))) = 3 \<and>
   get_edge graph_example ''3'' ''1'' = Inr (4 / 10) \<and>
   get_edge (snd (snd (edge_gen graph_example))) ''3'' ''1'' = Inr 0 \<and>
   get_edge (snd (snd (edge_gen graph_example))) ''1'' ''3'' = Inr (4 / 10)"
  by code_simp

section \<open>Properties of the conversion to float32\<close>











section \<open>Properties of the npz archive\<close>

















end
